(* ===== verification/Prelude.thy ===== *)
theory Prelude
  imports Main
begin

text \<open>
  Shared vocabulary of the development. Python's runtime errors are values of
  \<open>error\<close>, and a computation that may raise has type \<open>'a result\<close>
  (\<open>Inl\<close> the exception). Grid coordinates are pairs \<open>(row, col)\<close> of
  naturals. Python's nested lists (\<open>xs[r][c]\<close>) are read and written through
  \<open>get2\<close> and \<open>set2\<close>, which raise \<open>IndexError\<close> exactly where Python's
  indexing does for non-negative indices. The lemmas about them, collected in
  \<open>rect_simps\<close>, are what the component proofs rewrite with.
\<close>

named_theorems rect_simps "reading and writing rectangular nested lists in bounds"
named_theorems err_simps "error propagation through err_bind"

datatype error = IndexError | ValueError | KeyError | ZeroDivisionError | EmptyQueueError | NameError | AssertionError

type_synonym pos = "nat \<times> nat"

text \<open>
  A random source: the stream of values a generator will produce. A program that
  draws from it takes the stream and returns the rest.
\<close>

type_synonym rng = "nat \<Rightarrow> nat"
type_synonym 'a result = "error + 'a"

fun err_bind :: "'a result \<Rightarrow> ('a \<Rightarrow> 'b result) \<Rightarrow> 'b result" where
  "err_bind (Inl e) f = Inl e"
| "err_bind (Inr x) f = f x"

text \<open>Python's \<open>assert\<close>.\<close>

definition py_assert :: "bool \<Rightarrow> unit result" where
  "py_assert b = (if b then Inr () else Inl AssertionError)"

definition list_get :: "'a list \<Rightarrow> nat \<Rightarrow> 'a result" where
  "list_get xs i = (if i < length xs then Inr (xs ! i) else Inl IndexError)"

definition list_set :: "'a list \<Rightarrow> nat \<Rightarrow> 'a \<Rightarrow> 'a list result" where
  "list_set xs i v = (if i < length xs then Inr (xs[i := v]) else Inl IndexError)"

text \<open>\<open>xss[r][c]\<close> and \<open>xss[r][c] = v\<close> in Python.\<close>

definition get2 :: "'a list list \<Rightarrow> pos \<Rightarrow> 'a result" where
  "get2 xss p = err_bind (list_get xss (fst p)) (\<lambda>row. list_get row (snd p))"

definition set2 :: "'a list list \<Rightarrow> pos \<Rightarrow> 'a \<Rightarrow> 'a list list result" where
  "set2 xss p v =
     err_bind (list_get xss (fst p))
       (\<lambda>row. err_bind (list_set row (snd p) v) (\<lambda>row'. Inr (xss[fst p := row'])))"

text \<open>
  A Python \<open>for\<close> loop that appends one computed value per element to a new
  list, stopping at the first exception.
\<close>

fun map_err :: "('a \<Rightarrow> 'b result) \<Rightarrow> 'a list \<Rightarrow> 'b list result" where
  "map_err f [] = Inr []"
| "map_err f (x # xs) = err_bind (f x) (\<lambda>y. err_bind (map_err f xs) (\<lambda>ys. Inr (y # ys)))"

text \<open>
  A Python \<open>for\<close> loop whose body updates a state and may raise: the body is
  run on each element in turn, and the first exception ends the loop.
\<close>

fun fold_err :: "('a \<Rightarrow> 's \<Rightarrow> 's result) \<Rightarrow> 'a list \<Rightarrow> 's \<Rightarrow> 's result" where
  "fold_err f [] s = Inr s"
| "fold_err f (x # xs) s = err_bind (f x s) (fold_err f xs)"

abbreviation at2 :: "'a list list \<Rightarrow> pos \<Rightarrow> 'a" where
  "at2 xss p \<equiv> xss ! fst p ! snd p"

definition upd2 :: "'a list list \<Rightarrow> pos \<Rightarrow> 'a \<Rightarrow> 'a list list" where
  "upd2 xss p v = xss[fst p := (xss ! fst p)[snd p := v]]"

text \<open>An \<open>h \<times> w\<close> nested list, and the coordinates inside it.\<close>

definition rect :: "nat \<Rightarrow> nat \<Rightarrow> 'a list list \<Rightarrow> bool" where
  "rect h w xss \<longleftrightarrow> length xss = h \<and> (\<forall>row \<in> set xss. length row = w)"

definition in_bounds :: "nat \<Rightarrow> nat \<Rightarrow> pos \<Rightarrow> bool" where
  "in_bounds h w p \<longleftrightarrow> fst p < h \<and> snd p < w"

subsection \<open>Error propagation\<close>

lemma err_bind_Inr_iff [err_simps]:
  "err_bind m f = Inr y \<longleftrightarrow> (\<exists>x. m = Inr x \<and> f x = Inr y)"
  by (cases m) auto

lemma err_bind_Inl_iff [err_simps]:
  "err_bind m f = Inl e \<longleftrightarrow> m = Inl e \<or> (\<exists>x. m = Inr x \<and> f x = Inl e)"
  by (cases m) auto

lemma err_bind_Inr_left [simp]: "m = Inr x \<Longrightarrow> err_bind m f = f x"
  by simp

lemma map_err_Inr_iff:
  "map_err f xs = Inr ys \<longleftrightarrow> list_all2 (\<lambda>x y. f x = Inr y) xs ys"
proof (induction xs arbitrary: ys)
  case Nil
  then show ?case by auto
next
  case (Cons x xs)
  then show ?case by (cases ys) (auto simp: err_bind_Inr_iff)
qed

lemma map_err_map [simp]: "map_err (\<lambda>x. Inr (f x)) xs = Inr (map f xs)"
  by (induction xs) auto

lemma map_err_all_Inr:
  "\<forall>x \<in> set xs. f x = Inr (g x) \<Longrightarrow> map_err f xs = Inr (map g xs)"
  by (induction xs) auto

lemma map_err_some_Inl:
  "\<forall>x \<in> set xs. f x = Inl e \<or> (\<exists>y. f x = Inr y) \<Longrightarrow> \<exists>x \<in> set xs. f x = Inl e \<Longrightarrow>
   map_err f xs = Inl e"
proof (induction xs)
  case Nil
  then show ?case by simp
next
  case (Cons x xs)
  show ?case
  proof (cases "f x = Inl e")
    case True
    then show ?thesis by simp
  next
    case False
    with Cons.prems obtain y where y: "f x = Inr y" by auto
    from False Cons.prems have "map_err f xs = Inl e" by (intro Cons.IH) auto
    with y show ?thesis by simp
  qed
qed

lemma list_all2_in_set2: "list_all2 P xs ys \<Longrightarrow> y \<in> set ys \<Longrightarrow> \<exists>x \<in> set xs. P x y"
  by (induction rule: list_all2_induct) auto

subsection \<open>Lists built from guarded singletons\<close>

lemma mem_cond_append [simp]:
  "x \<in> set ((if P then [y] else []) @ ys) \<longleftrightarrow> (P \<and> x = y) \<or> x \<in> set ys"
  by auto

lemma mem_cond [simp]: "x \<in> set (if P then [y] else []) \<longleftrightarrow> P \<and> x = y"
  by auto

subsection \<open>Raw reads and writes that succeed\<close>

lemma get2_Inr:
  "get2 xss p = Inr x \<Longrightarrow> fst p < length xss \<and> snd p < length (xss ! fst p) \<and> x = at2 xss p"
  by (auto simp: get2_def list_get_def err_bind_Inr_iff split: if_splits)

lemma set2_Inr:
  "set2 xss p v = Inr yss \<Longrightarrow>
   fst p < length xss \<and> snd p < length (xss ! fst p) \<and> yss = upd2 xss p v"
  by (auto simp: set2_def list_get_def list_set_def upd2_def err_bind_Inr_iff split: if_splits)

lemma count_list_update_hit:
  "i < length xs \<Longrightarrow> xs ! i = a \<Longrightarrow> b \<noteq> a \<Longrightarrow>
   Suc (count_list (xs[i := b]) a) = count_list xs a"
  by (induction xs arbitrary: i) (auto split: nat.splits)

lemma sum_list_map_update:
  "i < length xs \<Longrightarrow>
   sum_list (map f (xs[i := y])) + f (xs ! i) = sum_list (map f xs) + (f y :: nat)"
  by (induction xs arbitrary: i) (auto split: nat.splits)

subsection \<open>Rectangular nested lists\<close>

lemma rect_replicate [rect_simps]: "rect h w (replicate h (replicate w x))"
  by (simp add: rect_def)

lemma rect_row_length [rect_simps]:
  "rect h w xss \<Longrightarrow> r < h \<Longrightarrow> length (xss ! r) = w"
  by (simp add: rect_def)

lemma get2_in [rect_simps]:
  "rect h w xss \<Longrightarrow> in_bounds h w p \<Longrightarrow> get2 xss p = Inr (at2 xss p)"
  by (simp add: get2_def list_get_def rect_def in_bounds_def)

lemma get2_out [rect_simps]:
  "rect h w xss \<Longrightarrow> \<not> in_bounds h w p \<Longrightarrow> get2 xss p = Inl IndexError"
  by (auto simp: get2_def list_get_def rect_def in_bounds_def)

lemma set2_in [rect_simps]:
  "rect h w xss \<Longrightarrow> in_bounds h w p \<Longrightarrow> set2 xss p v = Inr (upd2 xss p v)"
  by (simp add: set2_def list_get_def list_set_def rect_def in_bounds_def upd2_def)

lemma set2_out [rect_simps]:
  "rect h w xss \<Longrightarrow> \<not> in_bounds h w p \<Longrightarrow> set2 xss p v = Inl IndexError"
  by (auto simp: set2_def list_get_def list_set_def rect_def in_bounds_def)

lemma rect_upd2 [rect_simps]: "rect h w xss \<Longrightarrow> rect h w (upd2 xss p v)"
proof (cases "fst p < length xss")
  case True
  assume r: "rect h w xss"
  have "\<forall>row \<in> set (xss[fst p := (xss ! fst p)[snd p := v]]). length row = w"
  proof
    fix row
    assume "row \<in> set (xss[fst p := (xss ! fst p)[snd p := v]])"
    then have "row = (xss ! fst p)[snd p := v] \<or> row \<in> set xss"
      using set_update_subset_insert by fastforce
    with r True show "length row = w" by (auto simp: rect_def)
  qed
  with r show ?thesis by (simp add: rect_def upd2_def)
next
  case False
  then show "rect h w xss \<Longrightarrow> ?thesis" by (simp add: upd2_def list_update_beyond)
qed

lemma at2_upd2 [rect_simps]:
  "rect h w xss \<Longrightarrow> in_bounds h w p \<Longrightarrow> in_bounds h w q \<Longrightarrow>
   at2 (upd2 xss p v) q = (if q = p then v else at2 xss q)"
  by (cases p; cases q) (auto simp: rect_def upd2_def in_bounds_def nth_list_update)

lemma at2_upd2_pair [rect_simps]:
  "rect h w xss \<Longrightarrow> in_bounds h w p \<Longrightarrow> in_bounds h w (a, b) \<Longrightarrow>
   upd2 xss p v ! a ! b = (if (a, b) = p then v else xss ! a ! b)"
  using at2_upd2 [of h w xss p "(a, b)" v] by simp

lemma rect_eqI:
  assumes "rect h w a" "rect h w b" "\<And>r c. r < h \<Longrightarrow> c < w \<Longrightarrow> a ! r ! c = b ! r ! c"
  shows "a = b"
proof (rule nth_equalityI)
  show "length a = length b" using assms(1,2) by (simp add: rect_def)
next
  fix r assume "r < length a"
  with assms show "a ! r = b ! r" by (intro nth_equalityI) (auto simp: rect_def)
qed

lemma at2_replicate [rect_simps]:
  "in_bounds h w p \<Longrightarrow> at2 (replicate h (replicate w x)) p = x"
  by (simp add: in_bounds_def)

end
