(* ===== verification/Grid.thy ===== *)
theory Grid
  imports Prelude
begin

text \<open>
  The course library's occupancy grid (\<open>grid.Grid\<close>, the base class of
  \<open>Apocalypse\<close> in \<open>src/zombie_apocalypse.py\<close>; the module is not part of the
  repository, so it is modelled from the specification, section 4.1). The
  state is a record of the height, the width and the cells, a list of rows of
  \<open>EMPTY\<close>/\<open>FULL\<close>. The operations are polymorphic in the record's extension,
  so that the subclass \<open>Apocalypse\<close>, an extension of this record, inherits
  them as Python's subclass does. Writes and reads outside the cell lists raise
  \<open>IndexError\<close> (the specification's OutOfBounds).
\<close>

datatype cell = EMPTY | FULL

record grid =
  grid_height :: nat
  grid_width :: nat
  cells :: "cell list list"

definition new_grid :: "nat \<Rightarrow> nat \<Rightarrow> grid" where
  "new_grid h w =
     \<lparr>grid_height = h, grid_width = w, cells = replicate h (replicate w EMPTY)\<rparr>"

definition grid_clear :: "'a grid_scheme \<Rightarrow> 'a grid_scheme" where
  "grid_clear g = g\<lparr>cells := replicate (grid_height g) (replicate (grid_width g) EMPTY)\<rparr>"

definition set_empty :: "'a grid_scheme \<Rightarrow> nat \<Rightarrow> nat \<Rightarrow> 'a grid_scheme result" where
  "set_empty g row col = err_bind (set2 (cells g) (row, col) EMPTY) (\<lambda>cs. Inr (g\<lparr>cells := cs\<rparr>))"

definition set_full :: "'a grid_scheme \<Rightarrow> nat \<Rightarrow> nat \<Rightarrow> 'a grid_scheme result" where
  "set_full g row col = err_bind (set2 (cells g) (row, col) FULL) (\<lambda>cs. Inr (g\<lparr>cells := cs\<rparr>))"

definition is_empty :: "'a grid_scheme \<Rightarrow> nat \<Rightarrow> nat \<Rightarrow> bool result" where
  "is_empty g row col = err_bind (get2 (cells g) (row, col)) (\<lambda>c. Inr (c = EMPTY))"

definition is_full :: "'a grid_scheme \<Rightarrow> nat \<Rightarrow> nat \<Rightarrow> bool result" where
  "is_full g row col = err_bind (get2 (cells g) (row, col)) (\<lambda>c. Inr (c = FULL))"

text \<open>
  Neighbours in the order the library lists them: up, down, left, right, then
  the four diagonals for \<open>eight_neighbors\<close>. \<open>row < height - 1\<close> is
  Python's integer comparison; for \<open>height = 0\<close> it is false on both sides.
\<close>

definition four_neighbors :: "'a grid_scheme \<Rightarrow> nat \<Rightarrow> nat \<Rightarrow> pos list" where
  "four_neighbors g row col =
     (if 0 < row then [(row - 1, col)] else []) @
     (if row + 1 < grid_height g then [(row + 1, col)] else []) @
     (if 0 < col then [(row, col - 1)] else []) @
     (if col + 1 < grid_width g then [(row, col + 1)] else [])"

definition eight_neighbors :: "'a grid_scheme \<Rightarrow> nat \<Rightarrow> nat \<Rightarrow> pos list" where
  "eight_neighbors g row col =
     four_neighbors g row col @
     (if 0 < row \<and> 0 < col then [(row - 1, col - 1)] else []) @
     (if 0 < row \<and> col + 1 < grid_width g then [(row - 1, col + 1)] else []) @
     (if row + 1 < grid_height g \<and> 0 < col then [(row + 1, col - 1)] else []) @
     (if row + 1 < grid_height g \<and> col + 1 < grid_width g then [(row + 1, col + 1)] else [])"

text \<open>Well-formedness: the cells form a \<open>height \<times> width\<close> rectangle.\<close>

definition grid_wf :: "'a grid_scheme \<Rightarrow> bool" where
  "grid_wf g \<longleftrightarrow> rect (grid_height g) (grid_width g) (cells g)"

abbreviation inside :: "'a grid_scheme \<Rightarrow> pos \<Rightarrow> bool" where
  "inside g p \<equiv> in_bounds (grid_height g) (grid_width g) p"

text \<open>The obstacle (FULL) test on a cell known to be inside.\<close>

abbreviation free :: "'a grid_scheme \<Rightarrow> pos \<Rightarrow> bool" where
  "free g p \<equiv> at2 (cells g) p = EMPTY"

text \<open>Number of \<open>EMPTY\<close> cells: the measure that the BFS loop decreases.\<close>

definition empty_count :: "cell list list \<Rightarrow> nat" where
  "empty_count xss = sum_list (map (\<lambda>row. count_list row EMPTY) xss)"

text \<open>4-adjacency and 8-adjacency of two cells.\<close>

definition adj4 :: "pos \<Rightarrow> pos \<Rightarrow> bool" where
  "adj4 p q \<longleftrightarrow>
     (fst q = fst p \<and> (snd q = Suc (snd p) \<or> Suc (snd q) = snd p)) \<or>
     (snd q = snd p \<and> (fst q = Suc (fst p) \<or> Suc (fst q) = fst p))"

definition near :: "nat \<Rightarrow> nat \<Rightarrow> bool" where
  "near x y \<longleftrightarrow> y = x \<or> y = Suc x \<or> Suc y = x"

definition adj8 :: "pos \<Rightarrow> pos \<Rightarrow> bool" where
  "adj8 p q \<longleftrightarrow> q \<noteq> p \<and> near (fst p) (fst q) \<and> near (snd p) (snd q)"

subsection \<open>Neighbours\<close>

lemma set_four_neighbors:
  "inside g (r, c) \<Longrightarrow> set (four_neighbors g r c) = {p. inside g p \<and> adj4 (r, c) p}"
  by (auto simp: four_neighbors_def in_bounds_def adj4_def split: if_splits)

lemma near_cases:
  "near x y \<Longrightarrow> (y = x \<Longrightarrow> P) \<Longrightarrow> (y = Suc x \<Longrightarrow> P) \<Longrightarrow> (0 < x \<Longrightarrow> y = x - 1 \<Longrightarrow> P) \<Longrightarrow> P"
  by (auto simp: near_def)

lemma set_eight_neighbors:
  assumes "inside g (r, c)"
  shows "set (eight_neighbors g r c) = {p. inside g p \<and> adj8 (r, c) p}"
proof (rule set_eqI)
  fix p :: pos
  obtain a b where p: "p = (a, b)" by (cases p)
  show "p \<in> set (eight_neighbors g r c) \<longleftrightarrow> p \<in> {p. inside g p \<and> adj8 (r, c) p}"
  proof
    assume "p \<in> set (eight_neighbors g r c)"
    then show "p \<in> {p. inside g p \<and> adj8 (r, c) p}"
      using assms by (auto simp: eight_neighbors_def four_neighbors_def in_bounds_def adj8_def near_def)
  next
    assume "p \<in> {p. inside g p \<and> adj8 (r, c) p}"
    then have i: "inside g (a, b)" and ne: "(a, b) \<noteq> (r, c)" and na: "near r a" and nb: "near c b"
      by (auto simp: p adj8_def)
    from na nb ne i show "p \<in> set (eight_neighbors g r c)"
      unfolding p
      by (elim near_cases) (simp_all add: eight_neighbors_def four_neighbors_def in_bounds_def)
  qed
qed


lemma four_neighbors_inside:
  "inside g (r, c) \<Longrightarrow> p \<in> set (four_neighbors g r c) \<Longrightarrow> inside g p"
  by (simp add: set_four_neighbors)

lemma eight_neighbors_inside:
  "inside g (r, c) \<Longrightarrow> p \<in> set (eight_neighbors g r c) \<Longrightarrow> inside g p"
  by (simp add: set_eight_neighbors)

lemma adj4_adj8: "adj4 p q \<Longrightarrow> adj8 p q"
  by (auto simp: adj4_def adj8_def near_def)

lemma adj4_sym: "adj4 p q \<longleftrightarrow> adj4 q p"
  by (auto simp: adj4_def)

subsection \<open>Cell operations on a well-formed grid\<close>

lemma is_empty_inside [simp]:
  "grid_wf g \<Longrightarrow> inside g (r, c) \<Longrightarrow> is_empty g r c = Inr (free g (r, c))"
  by (simp add: is_empty_def grid_wf_def get2_in)

lemma set_full_inside [simp]:
  "grid_wf g \<Longrightarrow> inside g (r, c) \<Longrightarrow>
   set_full g r c = Inr (g\<lparr>cells := upd2 (cells g) (r, c) FULL\<rparr>)"
  by (simp add: set_full_def grid_wf_def set2_in)

lemma is_empty_outside:
  "grid_wf g \<Longrightarrow> \<not> inside g (r, c) \<Longrightarrow> is_empty g r c = Inl IndexError"
  by (simp add: is_empty_def grid_wf_def get2_out)

lemma set_full_outside:
  "grid_wf g \<Longrightarrow> \<not> inside g (r, c) \<Longrightarrow> set_full g r c = Inl IndexError"
  by (simp add: set_full_def grid_wf_def set2_out)

lemma grid_wf_set_full:
  "grid_wf g \<Longrightarrow> grid_wf (g\<lparr>cells := upd2 (cells g) p v\<rparr>)"
  by (simp add: grid_wf_def rect_upd2)

lemma grid_wf_new_grid: "grid_wf (new_grid h w)"
  by (simp add: grid_wf_def new_grid_def rect_replicate)

text \<open>Marking an \<open>EMPTY\<close> cell \<open>FULL\<close> removes exactly one empty cell.\<close>

lemma set_full_empty_count:
  assumes "set_full g r c = Inr g'" and "is_empty g r c = Inr True"
  shows "Suc (empty_count (cells g')) = empty_count (cells g)"
proof -
  from assms(1) obtain cs where s: "set2 (cells g) (r, c) FULL = Inr cs" and g': "g' = g\<lparr>cells := cs\<rparr>"
    by (auto simp: set_full_def err_bind_Inr_iff)
  from set2_Inr [OF s] have r: "r < length (cells g)" and c: "c < length (cells g ! r)"
    and cs: "cs = upd2 (cells g) (r, c) FULL" by auto
  from assms(2) have e: "cells g ! r ! c = EMPTY"
    by (auto simp: is_empty_def err_bind_Inr_iff dest: get2_Inr)
  have "Suc (count_list ((cells g ! r)[c := FULL]) EMPTY) = count_list (cells g ! r) EMPTY"
    using c e by (simp add: count_list_update_hit)
  then show ?thesis
    using sum_list_map_update [OF r, of "\<lambda>row. count_list row EMPTY" "(cells g ! r)[c := FULL]"]
    by (simp add: g' cs upd2_def empty_count_def)
qed

end
