(* ===== verification/Queue.thy ===== *)
theory Queue
  imports Prelude
begin

text \<open>
  The course library's FIFO queue (\<open>queue.Queue\<close>, imported by
  \<open>src/zombie_apocalypse.py\<close> but not part of the repository, hence modelled
  from the specification, section 4.2). Its state is the list of items, head
  first. \<open>enqueue\<close> appends at the tail, \<open>dequeue\<close> removes the head and
  raises \<open>EmptyQueueError\<close> on an empty queue, \<open>__len__\<close> is
  \<open>queue_len\<close> (Python's truth test \<open>while boundary\<close>) and \<open>__iter__\<close>
  yields the items head to tail without consuming them. The lemmas are the
  queue laws of a list-based FIFO specification.
\<close>

record 'a queue =
  items :: "'a list"

definition new_queue :: "'a queue" where
  "new_queue = \<lparr>items = []\<rparr>"

definition queue_len :: "'a queue \<Rightarrow> nat" where
  "queue_len q = length (items q)"

definition queue_iter :: "'a queue \<Rightarrow> 'a list" where
  "queue_iter q = items q"

definition enqueue :: "'a queue \<Rightarrow> 'a \<Rightarrow> 'a queue" where
  "enqueue q x = q\<lparr>items := items q @ [x]\<rparr>"

definition dequeue :: "'a queue \<Rightarrow> ('a \<times> 'a queue) result" where
  "dequeue q = (case items q of
                  [] \<Rightarrow> Inl EmptyQueueError
                | x # xs \<Rightarrow> Inr (x, q\<lparr>items := xs\<rparr>))"

definition queue_clear :: "'a queue \<Rightarrow> 'a queue" where
  "queue_clear q = q\<lparr>items := []\<rparr>"

text \<open>Enqueueing every element of a list, as the seeding loops do.\<close>

definition enqueue_all :: "'a queue \<Rightarrow> 'a list \<Rightarrow> 'a queue" where
  "enqueue_all q xs = fold (\<lambda>x q. enqueue q x) xs q"

lemma items_enqueue [simp]: "items (enqueue q x) = items q @ [x]"
  by (simp add: enqueue_def)

lemma items_enqueue_all [simp]: "items (enqueue_all q xs) = items q @ xs"
  by (induction xs arbitrary: q) (simp_all add: enqueue_all_def)

lemma dequeue_Cons [simp]: "items q = x # xs \<Longrightarrow> dequeue q = Inr (x, q\<lparr>items := xs\<rparr>)"
  by (simp add: dequeue_def)

lemma dequeue_Nil [simp]: "items q = [] \<Longrightarrow> dequeue q = Inl EmptyQueueError"
  by (simp add: dequeue_def)

lemma queue_len_zero_iff: "queue_len q = 0 \<longleftrightarrow> items q = []"
  by (simp add: queue_len_def)

end
