(* ===== verification/Apocalypse.thy ===== *)
theory Apocalypse
  imports Grid Queue
begin

text \<open>
  The zombie-pursuit simulation of \<open>src/zombie_apocalypse.py\<close>. Its class
  \<open>Apocalypse\<close> subclasses \<open>grid.Grid\<close>; the model's record extends the
  \<open>grid\<close> record with the two entity lists, so the grid operations apply to a
  simulation state unchanged. Every method is a function of the state (and its
  arguments) returning the new state or a value, or the \<open>IndexError\<close> the
  Python would raise. \<open>compute_distance_field\<close> is the multi-source BFS of
  lines 99-134: a seeding pass, then the \<open>while boundary\<close> loop as
  \<open>bfs_loop\<close>, whose termination is proved by the measure
  \<open>2 * empty cells of visited + length of the queue\<close>.
\<close>

datatype entity_type = OBSTACLE | HUMAN | ZOMBIE

record apocalypse = grid +
  zombie_list :: "pos list"
  human_list :: "pos list"

type_synonym field = "nat list list"

subsection \<open>Construction and the entity lists\<close>

fun set_obstacles :: "'a grid_scheme \<Rightarrow> pos list \<Rightarrow> 'a grid_scheme result" where
  "set_obstacles g [] = Inr g"
| "set_obstacles g (cell # cs) = err_bind (set_full g (fst cell) (snd cell)) (\<lambda>g'. set_obstacles g' cs)"

definition init_apocalypse ::
  "nat \<Rightarrow> nat \<Rightarrow> pos list option \<Rightarrow> pos list option \<Rightarrow> pos list option \<Rightarrow> apocalypse result" where
  "init_apocalypse grid_h grid_w obstacle_list zombies0 humans0 =
     (let s0 = \<lparr>grid_height = grid_h, grid_width = grid_w,
                cells = replicate grid_h (replicate grid_w EMPTY),
                zombie_list = [], human_list = []\<rparr>
      in err_bind (case obstacle_list of None \<Rightarrow> Inr s0 | Some obs \<Rightarrow> set_obstacles s0 obs)
           (\<lambda>s. Inr (s\<lparr>zombie_list := (case zombies0 of None \<Rightarrow> [] | Some zs \<Rightarrow> zs),
                       human_list := (case humans0 of None \<Rightarrow> [] | Some hs \<Rightarrow> hs)\<rparr>)))"

definition apocalypse_clear :: "apocalypse \<Rightarrow> apocalypse" where
  "apocalypse_clear s = (grid_clear s)\<lparr>human_list := [], zombie_list := []\<rparr>"

definition add_zombie :: "apocalypse \<Rightarrow> nat \<Rightarrow> nat \<Rightarrow> apocalypse" where
  "add_zombie s row col = s\<lparr>zombie_list := zombie_list s @ [(row, col)]\<rparr>"

definition num_zombies :: "apocalypse \<Rightarrow> nat" where
  "num_zombies s = length (zombie_list s)"

definition zombies :: "apocalypse \<Rightarrow> pos list" where
  "zombies s = zombie_list s"

definition add_human :: "apocalypse \<Rightarrow> nat \<Rightarrow> nat \<Rightarrow> apocalypse" where
  "add_human s row col = s\<lparr>human_list := human_list s @ [(row, col)]\<rparr>"

definition num_humans :: "apocalypse \<Rightarrow> nat" where
  "num_humans s = length (human_list s)"

definition humans :: "apocalypse \<Rightarrow> pos list" where
  "humans s = human_list s"

subsection \<open>The distance field: multi-source breadth-first search\<close>

text \<open>The field before the search: every cell holds the sentinel \<open>height * width\<close>.\<close>

definition initial_field :: "'a grid_scheme \<Rightarrow> field" where
  "initial_field g =
     replicate (grid_height g) (replicate (grid_width g) (grid_height g * grid_width g))"

text \<open>Lines 119-121: every queued entity is marked visited and gets distance 0.\<close>

fun seed_boundary :: "grid \<Rightarrow> field \<Rightarrow> pos list \<Rightarrow> (grid \<times> field) result" where
  "seed_boundary visited dist [] = Inr (visited, dist)"
| "seed_boundary visited dist (entity # es) =
     err_bind (set_full visited (fst entity) (snd entity)) (\<lambda>visited'.
       err_bind (set2 dist entity 0) (\<lambda>dist'. seed_boundary visited' dist' es))"

type_synonym bfs_state = "grid \<times> field \<times> pos queue"

text \<open>
  Lines 128-133, for one neighbour \<open>nbr\<close> of \<open>curr_cell\<close>. Python's
  \<open>and\<close> short-circuits: the obstacle grid is read only for unvisited cells.
\<close>

definition bfs_visit :: "'a grid_scheme \<Rightarrow> pos \<Rightarrow> bfs_state \<Rightarrow> pos \<Rightarrow> bfs_state result" where
  "bfs_visit g curr_cell st nbr =
     (case st of (visited, dist, boundary) \<Rightarrow>
       err_bind (is_empty visited (fst nbr) (snd nbr)) (\<lambda>unvisited.
         if \<not> unvisited then Inr (visited, dist, boundary) else
         err_bind (is_empty g (fst nbr) (snd nbr)) (\<lambda>no_obstacle.
           if \<not> no_obstacle then Inr (visited, dist, boundary) else
           err_bind (set_full visited (fst nbr) (snd nbr)) (\<lambda>visited'.
             let boundary' = enqueue boundary nbr in
             err_bind (get2 dist nbr) (\<lambda>curr_dist.
               err_bind (get2 dist curr_cell) (\<lambda>cd.
                 err_bind (set2 dist nbr (min curr_dist (cd + 1))) (\<lambda>dist'.
                   Inr (visited', dist', boundary'))))))))"

text \<open>Line 127: the \<open>for nbr in neighbors\<close> loop.\<close>

fun bfs_visit_all :: "'a grid_scheme \<Rightarrow> pos \<Rightarrow> bfs_state \<Rightarrow> pos list \<Rightarrow> bfs_state result" where
  "bfs_visit_all g curr_cell st [] = Inr st"
| "bfs_visit_all g curr_cell st (nbr # nbrs) =
     err_bind (bfs_visit g curr_cell st nbr) (\<lambda>st'. bfs_visit_all g curr_cell st' nbrs)"

text \<open>The measure that every visit keeps and every dequeue decreases.\<close>

definition bfs_measure :: "grid \<Rightarrow> pos queue \<Rightarrow> nat" where
  "bfs_measure visited boundary = 2 * empty_count (cells visited) + queue_len boundary"

text \<open>Lines 124-133: the \<open>while boundary\<close> loop.\<close>

function bfs_loop :: "'a grid_scheme \<Rightarrow> grid \<Rightarrow> field \<Rightarrow> pos queue \<Rightarrow> field result" where
  "bfs_loop g visited dist boundary =
     (if queue_len boundary = 0 then Inr dist
      else (case dequeue boundary of
              Inl e \<Rightarrow> Inl e
            | Inr (curr_cell, boundary') \<Rightarrow>
                (case bfs_visit_all g curr_cell (visited, dist, boundary')
                        (four_neighbors g (fst curr_cell) (snd curr_cell)) of
                   Inl e \<Rightarrow> Inl e
                 | Inr (visited', dist', boundary'') \<Rightarrow> bfs_loop g visited' dist' boundary'')))"
  by pat_completeness auto


text \<open>Lines 99-134. \<open>HUMAN\<close> seeds from the humans, every other type from the zombies.\<close>

definition compute_distance_field :: "apocalypse \<Rightarrow> entity_type \<Rightarrow> field result" where
  "compute_distance_field s entity_type =
     (let visited = new_grid (grid_height s) (grid_width s);
          distance_field = initial_field s;
          boundary = enqueue_all new_queue
                       (if entity_type = HUMAN then humans s else zombies s)
      in err_bind (seed_boundary visited distance_field (queue_iter boundary))
           (\<lambda>(visited', distance_field'). bfs_loop s visited' distance_field' boundary))"

subsection \<open>Movement\<close>

text \<open>
  Lines 148-155: the best cell so far and its distance, over the neighbours in
  the order \<open>eight_neighbors\<close> lists them; only a strictly greater distance
  replaces it.
\<close>

fun best_human_move :: "apocalypse \<Rightarrow> field \<Rightarrow> nat \<times> pos \<Rightarrow> pos list \<Rightarrow> (nat \<times> pos) result" where
  "best_human_move s zf best [] = Inr best"
| "best_human_move s zf (curr_best_dist, best_so_far) (nbr # nbrs) =
     err_bind (is_empty s (fst nbr) (snd nbr)) (\<lambda>empty.
       if empty then
         err_bind (get2 zf nbr) (\<lambda>d.
           if d > curr_best_dist then best_human_move s zf (d, nbr) nbrs
           else best_human_move s zf (curr_best_dist, best_so_far) nbrs)
       else best_human_move s zf (curr_best_dist, best_so_far) nbrs)"

definition move_human :: "apocalypse \<Rightarrow> field \<Rightarrow> pos \<Rightarrow> pos result" where
  "move_human s zf human =
     (let nbrs = eight_neighbors s (fst human) (snd human) in
      err_bind (get2 zf human) (\<lambda>curr_best_dist.
        err_bind (best_human_move s zf (curr_best_dist, human) nbrs) (\<lambda>(_, best_so_far).
          Inr best_so_far)))"

text \<open>Lines 139-161: new positions from one snapshot, then the list is replaced.\<close>

definition move_humans :: "apocalypse \<Rightarrow> field \<Rightarrow> apocalypse result" where
  "move_humans s zf =
     err_bind (map_err (move_human s zf) (humans s)) (\<lambda>new_human_list.
       Inr (s\<lparr>human_list := new_human_list\<rparr>))"

fun best_zombie_move :: "apocalypse \<Rightarrow> field \<Rightarrow> nat \<times> pos \<Rightarrow> pos list \<Rightarrow> (nat \<times> pos) result" where
  "best_zombie_move s hf best [] = Inr best"
| "best_zombie_move s hf (curr_best_dist, best_so_far) (nbr # nbrs) =
     err_bind (is_empty s (fst nbr) (snd nbr)) (\<lambda>empty.
       if empty then
         err_bind (get2 hf nbr) (\<lambda>d.
           if d < curr_best_dist then best_zombie_move s hf (d, nbr) nbrs
           else best_zombie_move s hf (curr_best_dist, best_so_far) nbrs)
       else best_zombie_move s hf (curr_best_dist, best_so_far) nbrs)"

definition move_zombie :: "apocalypse \<Rightarrow> field \<Rightarrow> pos \<Rightarrow> pos result" where
  "move_zombie s hf zombie =
     (let nbrs = four_neighbors s (fst zombie) (snd zombie) in
      err_bind (get2 hf zombie) (\<lambda>curr_best_dist.
        err_bind (best_zombie_move s hf (curr_best_dist, zombie) nbrs) (\<lambda>(_, best_so_far).
          Inr best_so_far)))"

text \<open>Lines 165-187.\<close>

definition move_zombies :: "apocalypse \<Rightarrow> field \<Rightarrow> apocalypse result" where
  "move_zombies s hf =
     err_bind (map_err (move_zombie s hf) (zombies s)) (\<lambda>new_zombie_list.
       Inr (s\<lparr>zombie_list := new_zombie_list\<rparr>))"

subsection \<open>Termination of the search loop\<close>

lemma bfs_visit_measure:
  assumes "bfs_visit g cur (visited, dist, q) nbr = Inr (visited', dist', q')"
  shows "bfs_measure visited' q' \<le> bfs_measure visited q"
proof -
  consider (skip) "visited' = visited" "q' = q"
    | (mark) "is_empty visited (fst nbr) (snd nbr) = Inr True"
             "set_full visited (fst nbr) (snd nbr) = Inr visited'" "q' = enqueue q nbr"
    using assms unfolding bfs_visit_def Let_def
    by (auto simp: err_bind_Inr_iff split: if_splits)
  then show ?thesis
  proof cases
    case skip
    then show ?thesis by simp
  next
    case mark
    then have "Suc (empty_count (cells visited')) = empty_count (cells visited)"
      using set_full_empty_count by blast
    with mark show ?thesis by (simp add: bfs_measure_def queue_len_def)
  qed
qed

lemma bfs_visit_all_measure:
  "bfs_visit_all g cur (visited, dist, q) nbrs = Inr (visited', dist', q') \<Longrightarrow>
   bfs_measure visited' q' \<le> bfs_measure visited q"
proof (induction nbrs arbitrary: visited dist q)
  case Nil
  then show ?case by simp
next
  case (Cons nbr nbrs)
  then obtain v1 d1 q1 where s1: "bfs_visit g cur (visited, dist, q) nbr = Inr (v1, d1, q1)"
    and rest: "bfs_visit_all g cur (v1, d1, q1) nbrs = Inr (visited', dist', q')"
    by (auto simp: err_bind_Inr_iff)
  from Cons.IH [OF rest] bfs_visit_measure [OF s1] show ?case by simp
qed

text \<open>One iteration of the loop body decreases the measure by at least one.\<close>

lemma bfs_loop_step_measure:
  assumes "dequeue boundary = Inr (curr_cell, boundary')"
    and "bfs_visit_all g curr_cell (visited, dist, boundary') nbrs = Inr (visited', dist', boundary'')"
  shows "bfs_measure visited' boundary'' < bfs_measure visited boundary"
proof -
  from assms(2) have "bfs_measure visited' boundary'' \<le> bfs_measure visited boundary'"
    by (rule bfs_visit_all_measure)
  moreover from assms(1) have "queue_len boundary = Suc (queue_len boundary')"
    by (auto simp: dequeue_def queue_len_def split: list.splits)
  ultimately show ?thesis by (simp add: bfs_measure_def)
qed

termination bfs_loop
  by (relation "measure (\<lambda>(g, visited, dist, boundary). bfs_measure visited boundary)")
     (auto dest: bfs_loop_step_measure)

declare bfs_loop.simps [simp del]

end
