(* ===== verification/Distance_Field.thy ===== *)
theory Distance_Field
  imports Apocalypse
begin

text \<open>
  Correctness of \<open>compute_distance_field\<close> (lines 99-134 of
  \<open>src/zombie_apocalypse.py\<close>). The abstract specification is \<open>reach\<close>: a
  walk of \<open>n\<close> four-way steps from a seed to a cell, every cell after the seed
  inside the grid and free of obstacles. The search is proved to compute, in
  every cell, the least such \<open>n\<close>, or the sentinel \<open>height * width\<close> when
  there is none. The proof follows the loop: invariants of the loop state
  (\<open>bfs_inv\<close>, split into named predicates), an invariant of the middle of
  one iteration, while the neighbours of the dequeued cell are visited
  (\<open>bfs_mid\<close>), and the seeding pass establishing \<open>bfs_inv\<close>.
\<close>

named_theorems bfs_inv_defs "the predicates the BFS invariants are made of"

inductive reach :: "'a grid_scheme \<Rightarrow> pos set \<Rightarrow> pos \<Rightarrow> nat \<Rightarrow> bool" for g S where
  seed: "p \<in> S \<Longrightarrow> inside g p \<Longrightarrow> reach g S p 0"
| step: "reach g S p n \<Longrightarrow> adj4 p q \<Longrightarrow> inside g q \<Longrightarrow> free g q \<Longrightarrow> reach g S q (Suc n)"

definition shortest :: "'a grid_scheme \<Rightarrow> pos set \<Rightarrow> pos \<Rightarrow> nat" where
  "shortest g S p =
     (if \<exists>n. reach g S p n then (LEAST n. reach g S p n) else grid_height g * grid_width g)"

subsection \<open>The loop state\<close>

text \<open>The visited cells, read in the frame of the obstacle grid \<open>g\<close>.\<close>

definition vset :: "'a grid_scheme \<Rightarrow> grid \<Rightarrow> pos set" where
  "vset g vis = {p. inside g p \<and> at2 (cells vis) p = FULL}"

abbreviation sentinel :: "'a grid_scheme \<Rightarrow> nat" where
  "sentinel g \<equiv> grid_height g * grid_width g"

definition inv_wf :: "'a grid_scheme \<Rightarrow> bfs_state \<Rightarrow> bool" where
  [bfs_inv_defs]: "inv_wf g st \<longleftrightarrow> (case st of (vis, d, q) \<Rightarrow>
     grid_wf g \<and> grid_wf vis \<and> grid_height vis = grid_height g \<and> grid_width vis = grid_width g \<and>
     rect (grid_height g) (grid_width g) d \<and> (\<forall>x \<in> set (items q). inside g x))"

definition inv_fields :: "'a grid_scheme \<Rightarrow> pos set \<Rightarrow> bfs_state \<Rightarrow> bool" where
  [bfs_inv_defs]: "inv_fields g S st \<longleftrightarrow> (case st of (vis, d, q) \<Rightarrow>
     set (items q) \<subseteq> vset g vis \<and>
     (\<forall>p. inside g p \<and> p \<notin> vset g vis \<longrightarrow> at2 d p = sentinel g) \<and>
     (\<forall>p \<in> vset g vis. at2 d p < card (vset g vis)) \<and>
     (\<forall>p \<in> vset g vis. reach g S p (at2 d p)) \<and>
     (\<forall>s \<in> S. s \<in> vset g vis \<and> at2 d s = 0))"

text \<open>A cell whose free neighbours are all visited, at most one further away.\<close>

definition closed :: "'a grid_scheme \<Rightarrow> grid \<Rightarrow> field \<Rightarrow> pos \<Rightarrow> bool" where
  "closed g vis d p \<longleftrightarrow>
     (\<forall>n. inside g n \<and> free g n \<and> adj4 p n \<longrightarrow> n \<in> vset g vis \<and> at2 d n \<le> Suc (at2 d p))"

definition inv_order :: "'a grid_scheme \<Rightarrow> bfs_state \<Rightarrow> bool" where
  [bfs_inv_defs]: "inv_order g st \<longleftrightarrow> (case st of (vis, d, q) \<Rightarrow>
     sorted (map (at2 d) (items q)) \<and>
     (\<forall>x \<in> set (items q). \<forall>y \<in> set (items q). at2 d y \<le> Suc (at2 d x)) \<and>
     (\<forall>p \<in> vset g vis - set (items q).
        closed g vis d p \<and> (\<forall>x \<in> set (items q). at2 d p \<le> at2 d x)))"

definition bfs_inv :: "'a grid_scheme \<Rightarrow> pos set \<Rightarrow> bfs_state \<Rightarrow> bool" where
  "bfs_inv g S st \<longleftrightarrow> inv_wf g st \<and> inv_fields g S st \<and> inv_order g st"

text \<open>
  In the middle of an iteration: \<open>cur\<close> has been dequeued, the neighbours in
  \<open>handled\<close> have been looked at, every queued distance lies in
  \<open>[k, k + 1]\<close> for \<open>k\<close> the distance of \<open>cur\<close>.
\<close>

definition bfs_mid :: "'a grid_scheme \<Rightarrow> pos set \<Rightarrow> pos \<Rightarrow> pos set \<Rightarrow> bfs_state \<Rightarrow> bool" where
  "bfs_mid g S cur handled st \<longleftrightarrow> inv_wf g st \<and> inv_fields g S st \<and>
     (case st of (vis, d, q) \<Rightarrow>
       inside g cur \<and> cur \<in> vset g vis \<and>
       sorted (map (at2 d) (items q)) \<and>
       (\<forall>x \<in> set (items q). at2 d cur \<le> at2 d x \<and> at2 d x \<le> Suc (at2 d cur)) \<and>
       (\<forall>p \<in> vset g vis - set (items q) - {cur}. closed g vis d p \<and> at2 d p \<le> at2 d cur) \<and>
       (\<forall>n \<in> handled. inside g n \<and> free g n \<longrightarrow> n \<in> vset g vis \<and> at2 d n \<le> Suc (at2 d cur)))"

text \<open>Marking a cell visited, and the entities a search starts from.\<close>

abbreviation mark :: "grid \<Rightarrow> pos \<Rightarrow> grid" where
  "mark vis n \<equiv> vis\<lparr>cells := upd2 (cells vis) n FULL\<rparr>"

definition sources :: "apocalypse \<Rightarrow> entity_type \<Rightarrow> pos list" where
  "sources s entity_type = (if entity_type = HUMAN then humans s else zombies s)"

subsection \<open>Visited sets\<close>

lemma finite_inside: "finite {p. in_bounds h w p}"
proof -
  have "{p. in_bounds h w p} = {0..<h} \<times> {0..<w}"
    by (auto simp: in_bounds_def)
  then show ?thesis by simp
qed

lemma card_inside: "card {p. in_bounds h w p} = h * w"
proof -
  have "{p. in_bounds h w p} = {0..<h} \<times> {0..<w}"
    by (auto simp: in_bounds_def)
  then show ?thesis by (simp add: card_cartesian_product)
qed

lemma finite_vset [simp]: "finite (vset g vis)"
  by (rule finite_subset [OF _ finite_inside]) (auto simp: vset_def)

lemma card_vset_less:
  assumes "inside g n" "n \<notin> vset g vis"
  shows "card (vset g vis) < sentinel g"
proof -
  have "vset g vis \<subset> {p. inside g p}"
    using assms by (auto simp: vset_def)
  then have "card (vset g vis) < card {p. inside g p}"
    by (rule psubset_card_mono [OF finite_inside])
  then show ?thesis by (simp add: card_inside)
qed

lemma vset_mark:
  assumes "grid_wf vis" "grid_height vis = grid_height g" "grid_width vis = grid_width g" "inside g n"
  shows "vset g (vis\<lparr>cells := upd2 (cells vis) n FULL\<rparr>) = insert n (vset g vis)"
  using assms by (auto simp: vset_def grid_wf_def rect_simps)

lemma closed_mono:
  assumes "closed g vis d p" "vset g vis \<subseteq> vset g vis'"
    and "\<forall>x \<in> vset g vis. at2 d' x = at2 d x" "p \<in> vset g vis"
  shows "closed g vis' d' p"
  using assms unfolding closed_def by (metis subsetD)

subsection \<open>One neighbour\<close>

text \<open>On a well-formed state, visiting an inside neighbour never raises.\<close>

lemma bfs_visit_eq:
  assumes "inv_wf g (vis, d, q)" "inside g cur" "inside g n"
  shows "bfs_visit g cur (vis, d, q) n =
           Inr (if n \<notin> vset g vis \<and> free g n
                then (vis\<lparr>cells := upd2 (cells vis) n FULL\<rparr>,
                      upd2 d n (min (at2 d n) (Suc (at2 d cur))), enqueue q n)
                else (vis, d, q))"
proof -
  from assms(1) have wf: "grid_wf g" "grid_wf vis" "grid_height vis = grid_height g"
    "grid_width vis = grid_width g" "rect (grid_height g) (grid_width g) d"
    by (auto simp: inv_wf_def)
  have nv: "inside vis n" using assms(3) wf by simp
  have unv: "(at2 (cells vis) n = EMPTY) = (n \<notin> vset g vis)"
    using assms(3) by (cases "at2 (cells vis) n") (auto simp: vset_def)
  show ?thesis
    using wf assms(2,3) nv unv
    by (cases n) (auto simp: bfs_visit_def Let_def get2_in set2_in)
qed

text \<open>Marking a new cell: the three parts of the state it changes.\<close>

lemma inv_wf_mark:
  "inv_wf g (vis, d, q) \<Longrightarrow> inside g n \<Longrightarrow> inv_wf g (mark vis n, upd2 d n v, enqueue q n)"
  by (auto simp: inv_wf_def grid_wf_def rect_upd2)

lemma at2_mark_field:
  "inv_wf g (vis, d, q) \<Longrightarrow> inside g n \<Longrightarrow> inside g x \<Longrightarrow>
   at2 (upd2 d n v) x = (if x = n then v else at2 d x)"
  by (auto simp: inv_wf_def at2_upd2)

lemma inv_fields_mark:
  assumes wf: "inv_wf g (vis, d, q)" and fl: "inv_fields g S (vis, d, q)"
    and n: "inside g n" "n \<notin> vset g vis" "free g n"
    and cur: "cur \<in> vset g vis" "adj4 cur n"
  shows "inv_fields g S (mark vis n, upd2 d n (Suc (at2 d cur)), enqueue q n)"
proof -
  let ?d' = "upd2 d n (Suc (at2 d cur))"
  have V': "vset g (mark vis n) = insert n (vset g vis)"
    using wf n(1) by (intro vset_mark) (auto simp: inv_wf_def)
  have at: "\<And>x. inside g x \<Longrightarrow> at2 ?d' x = (if x = n then Suc (at2 d cur) else at2 d x)"
    using at2_mark_field [OF wf n(1)] .
  have inV: "\<And>x. x \<in> vset g vis \<Longrightarrow> inside g x" by (simp add: vset_def)
  have card': "card (insert n (vset g vis)) = Suc (card (vset g vis))"
    using n(2) by simp
  have "at2 d cur < card (vset g vis)" using fl cur(1) by (auto simp: inv_fields_def)
  moreover have "reach g S n (Suc (at2 d cur))"
    using fl cur n by (auto simp: inv_fields_def intro: reach.step)
  ultimately show ?thesis
    using fl n(1,2) V' card' at inV
    by (auto simp: inv_fields_def)
qed

lemma bfs_mid_visit:
  assumes mid: "bfs_mid g S cur H (vis, d, q)"
    and n: "n \<in> set (four_neighbors g (fst cur) (snd cur))"
  shows "\<exists>st'. bfs_visit g cur (vis, d, q) n = Inr st' \<and> bfs_mid g S cur (insert n H) st'"
proof -
  from mid have wf: "inv_wf g (vis, d, q)" and fl: "inv_fields g S (vis, d, q)"
    and cur: "inside g cur" "cur \<in> vset g vis"
    by (auto simp: bfs_mid_def)
  from n cur(1) have adj: "adj4 cur n" and ni: "inside g n"
    by (cases cur; simp add: set_four_neighbors)+
  note visit = bfs_visit_eq [OF wf cur(1) ni]
  show ?thesis
  proof (cases "n \<notin> vset g vis \<and> free g n")
    case False
    have "at2 d n \<le> Suc (at2 d cur)" if nv: "n \<in> vset g vis"
    proof (cases "n \<in> set (items q) \<or> n = cur")
      case True
      with mid show ?thesis by (auto simp: bfs_mid_def)
    next
      case False
      from mid have "\<forall>p \<in> vset g vis - set (items q) - {cur}. at2 d p \<le> at2 d cur"
        by (simp add: bfs_mid_def)
      with nv False have "at2 d n \<le> at2 d cur" by blast
      then show ?thesis by simp
    qed
    with mid False ni have "bfs_mid g S cur (insert n H) (vis, d, q)"
      by (auto simp: bfs_mid_def)
    with False visit show ?thesis by auto
  next
    case True
    let ?k = "at2 d cur"
    let ?d' = "upd2 d n (Suc ?k)"
    have "at2 d n = sentinel g" using fl True ni by (auto simp: inv_fields_def)
    moreover have "?k < card (vset g vis)" using fl cur by (auto simp: inv_fields_def)
    moreover have "card (vset g vis) < sentinel g" using card_vset_less ni True by blast
    ultimately have "min (at2 d n) (Suc ?k) = Suc ?k" by simp
    with True visit have eq: "bfs_visit g cur (vis, d, q) n = Inr (mark vis n, ?d', enqueue q n)"
      by simp
    have V': "vset g (mark vis n) = insert n (vset g vis)"
      using wf ni by (intro vset_mark) (auto simp: inv_wf_def)
    have at: "\<And>x. inside g x \<Longrightarrow> at2 ?d' x = (if x = n then Suc ?k else at2 d x)"
      using at2_mark_field [OF wf ni] .
    have inV: "\<And>x. x \<in> vset g vis \<Longrightarrow> inside g x" by (simp add: vset_def)
    have qV: "set (items q) \<subseteq> vset g vis" using fl by (simp add: inv_fields_def)
    have keep: "\<forall>x \<in> vset g vis. at2 ?d' x = at2 d x"
      using at inV True by auto
    have "bfs_mid g S cur (insert n H) (mark vis n, ?d', enqueue q n)"
      unfolding bfs_mid_def
    proof (intro conjI)
      show "inv_wf g (mark vis n, ?d', enqueue q n)" by (rule inv_wf_mark [OF wf ni])
      show "inv_fields g S (mark vis n, ?d', enqueue q n)"
        by (rule inv_fields_mark [OF wf fl ni _ _ cur(2) adj]) (use True in auto)
      have meq: "map (at2 ?d') (items q) = map (at2 d) (items q)"
        using keep qV by auto
      have "\<forall>x \<in> set (items q). at2 d x \<le> Suc ?k" using mid by (simp add: bfs_mid_def)
      with mid have "sorted (map (at2 d) (items q) @ [Suc ?k])"
        by (simp add: bfs_mid_def sorted_append)
      then have sorted': "sorted (map (at2 ?d') (items (enqueue q n)))"
        by (simp add: meq at [OF ni] del: map_eq_conv)
      have rest: "\<forall>p \<in> vset g (mark vis n) - set (items (enqueue q n)) - {cur}.
                    closed g (mark vis n) ?d' p \<and> at2 ?d' p \<le> at2 ?d' cur"
      proof
        fix p assume p: "p \<in> vset g (mark vis n) - set (items (enqueue q n)) - {cur}"
        then have pV: "p \<in> vset g vis - set (items q) - {cur}" using V' by auto
        with mid have "closed g vis d p" "at2 d p \<le> ?k" by (auto simp: bfs_mid_def)
        moreover have "closed g (mark vis n) ?d' p"
          using closed_mono [OF \<open>closed g vis d p\<close> _ keep] pV V' by auto
        ultimately show "closed g (mark vis n) ?d' p \<and> at2 ?d' p \<le> at2 ?d' cur"
          using keep pV cur(2) by auto
      qed
      have kk: "at2 ?d' cur = ?k" using keep cur(2) by blast
      have qb: "\<forall>x \<in> set (items (enqueue q n)). ?k \<le> at2 ?d' x \<and> at2 ?d' x \<le> Suc ?k"
      proof
        fix x assume x: "x \<in> set (items (enqueue q n))"
        show "?k \<le> at2 ?d' x \<and> at2 ?d' x \<le> Suc ?k"
        proof (cases "x = n")
          case True
          then show ?thesis using at [OF ni] by simp
        next
          case False
          with x have "x \<in> set (items q)" by simp
          moreover from this qV keep have "at2 ?d' x = at2 d x" by blast
          ultimately show ?thesis using mid by (simp add: bfs_mid_def)
        qed
      qed
      have hb: "\<forall>m \<in> insert n H. inside g m \<and> free g m \<longrightarrow>
                  m \<in> vset g (mark vis n) \<and> at2 ?d' m \<le> Suc ?k"
      proof
        fix m assume m: "m \<in> insert n H"
        show "inside g m \<and> free g m \<longrightarrow> m \<in> vset g (mark vis n) \<and> at2 ?d' m \<le> Suc ?k"
        proof (cases "m = n")
          case True
          then show ?thesis using at [OF ni] V' by simp
        next
          case False
          with m mid have "inside g m \<and> free g m \<longrightarrow> m \<in> vset g vis \<and> at2 d m \<le> Suc ?k"
            by (simp add: bfs_mid_def)
          with keep V' show ?thesis by auto
        qed
      qed
      show "case (mark vis n, ?d', enqueue q n) of (vis, d, q) \<Rightarrow>
        inside g cur \<and> cur \<in> vset g vis \<and> sorted (map (at2 d) (items q)) \<and>
        (\<forall>x\<in>set (items q). at2 d cur \<le> at2 d x \<and> at2 d x \<le> Suc (at2 d cur)) \<and>
        (\<forall>p\<in>vset g vis - set (items q) - {cur}. closed g vis d p \<and> at2 d p \<le> at2 d cur) \<and>
        (\<forall>n\<in>insert n H. inside g n \<and> free g n \<longrightarrow> n \<in> vset g vis \<and> at2 d n \<le> Suc (at2 d cur))"
        using cur V' sorted' rest qb hb by (simp add: kk)
    qed
    with eq show ?thesis by blast
  qed
qed

subsection \<open>One iteration\<close>

lemma bfs_mid_visit_all:
  "bfs_mid g S cur H st \<Longrightarrow> set ns \<subseteq> set (four_neighbors g (fst cur) (snd cur)) \<Longrightarrow>
   \<exists>st'. bfs_visit_all g cur st ns = Inr st' \<and> bfs_mid g S cur (H \<union> set ns) st'"
proof (induction ns arbitrary: H st)
  case Nil
  then show ?case by simp
next
  case (Cons n ns)
  obtain vis d q where st: "st = (vis, d, q)" by (cases st)
  from bfs_mid_visit [of g S cur H vis d q n] Cons.prems st
  obtain st1 where s1: "bfs_visit g cur st n = Inr st1" and m1: "bfs_mid g S cur (insert n H) st1"
    by auto
  from Cons.IH [OF m1] Cons.prems obtain st' where
    "bfs_visit_all g cur st1 ns = Inr st'" "bfs_mid g S cur (insert n H \<union> set ns) st'"
    by auto
  with s1 show ?case by auto
qed

lemma bfs_inv_dequeue:
  assumes inv: "bfs_inv g S (vis, d, q)" and q: "items q = cur # rest"
  shows "bfs_mid g S cur {} (vis, d, q\<lparr>items := rest\<rparr>)"
proof -
  from inv q have wf: "inv_wf g (vis, d, q)" and fl: "inv_fields g S (vis, d, q)"
    and ord: "inv_order g (vis, d, q)" by (auto simp: bfs_inv_def)
  from fl q have curV: "cur \<in> vset g vis" by (simp add: inv_fields_def)
  from wf q have curI: "inside g cur" by (simp add: inv_wf_def)
  from ord q have "sorted (map (at2 d) (cur # rest))"
    "\<forall>x \<in> set (cur # rest). \<forall>y \<in> set (cur # rest). at2 d y \<le> Suc (at2 d x)"
    by (simp_all add: inv_order_def)
  then have qb: "\<forall>x \<in> set rest. at2 d cur \<le> at2 d x \<and> at2 d x \<le> Suc (at2 d cur)"
    by auto
  have finished: "\<forall>p \<in> vset g vis - set rest - {cur}. closed g vis d p \<and> at2 d p \<le> at2 d cur"
    using ord q by (auto simp: inv_order_def)
  show ?thesis
    using wf fl q curV curI qb finished \<open>sorted (map (at2 d) (cur # rest))\<close>
    by (auto simp: bfs_mid_def inv_wf_def inv_fields_def)
qed

lemma bfs_mid_finish:
  assumes mid: "bfs_mid g S cur (set (four_neighbors g (fst cur) (snd cur))) (vis, d, q)"
  shows "bfs_inv g S (vis, d, q)"
proof -
  from mid have curI: "inside g cur" and curV: "cur \<in> vset g vis"
    and qb: "\<forall>x \<in> set (items q). at2 d cur \<le> at2 d x \<and> at2 d x \<le> Suc (at2 d cur)"
    and rest: "\<forall>p \<in> vset g vis - set (items q) - {cur}. closed g vis d p \<and> at2 d p \<le> at2 d cur"
    and nb: "\<forall>n \<in> set (four_neighbors g (fst cur) (snd cur)). inside g n \<and> free g n \<longrightarrow>
               n \<in> vset g vis \<and> at2 d n \<le> Suc (at2 d cur)"
    by (auto simp: bfs_mid_def)
  have "closed g vis d cur"
    unfolding closed_def
  proof (intro allI impI)
    fix n assume n: "inside g n \<and> free g n \<and> adj4 cur n"
    with curI have "n \<in> set (four_neighbors g (fst cur) (snd cur))"
      by (cases cur) (simp add: set_four_neighbors)
    with nb n show "n \<in> vset g vis \<and> at2 d n \<le> Suc (at2 d cur)" by blast
  qed
  have "\<forall>p \<in> vset g vis - set (items q).
      closed g vis d p \<and> (\<forall>x \<in> set (items q). at2 d p \<le> at2 d x)"
  proof
    fix p assume p: "p \<in> vset g vis - set (items q)"
    show "closed g vis d p \<and> (\<forall>x \<in> set (items q). at2 d p \<le> at2 d x)"
    proof (cases "p = cur")
      case True
      with \<open>closed g vis d cur\<close> qb show ?thesis by simp
    next
      case False
      with p rest have "closed g vis d p" "at2 d p \<le> at2 d cur" by auto
      with qb show ?thesis by (auto intro: le_trans)
    qed
  qed
  moreover have "\<forall>x \<in> set (items q). \<forall>y \<in> set (items q). at2 d y \<le> Suc (at2 d x)"
  proof (intro ballI)
    fix x y assume "x \<in> set (items q)" "y \<in> set (items q)"
    with qb have "at2 d y \<le> Suc (at2 d cur)" "at2 d cur \<le> at2 d x" by auto
    then show "at2 d y \<le> Suc (at2 d x)" by simp
  qed
  ultimately show ?thesis
    using mid by (simp add: bfs_inv_def inv_order_def bfs_mid_def)
qed

lemma queue_Nil_eq: "items (q :: 'a queue) = [] \<Longrightarrow> q = new_queue"
  by (cases q) (simp add: new_queue_def)

lemma bfs_loop_inv:
  "bfs_inv g S (vis, d, q) \<Longrightarrow>
   \<exists>vis'. \<exists>d'. bfs_loop g vis d q = Inr d' \<and> bfs_inv g S (vis', d', new_queue)"
proof (induction g vis d q rule: bfs_loop.induct)
  case (1 g vis d q)
  show ?case
  proof (cases "items q")
    case Nil
    then have "bfs_loop g vis d q = Inr d"
      by (simp add: bfs_loop.simps [of g vis d q] queue_len_def)
    moreover from Nil have "q = new_queue" by (rule queue_Nil_eq)
    ultimately show ?thesis using "1.prems" by blast
  next
    case (Cons cur rest)
    let ?q' = "q\<lparr>items := rest\<rparr>"
    have deq: "dequeue q = Inr (cur, ?q')" using Cons by simp
    have nz: "queue_len q \<noteq> 0" using Cons by (simp add: queue_len_def)
    from bfs_inv_dequeue [OF "1.prems" Cons]
    have "bfs_mid g S cur {} (vis, d, ?q')" .
    from bfs_mid_visit_all [OF this order_refl]
    obtain st' where v: "bfs_visit_all g cur (vis, d, ?q') (four_neighbors g (fst cur) (snd cur)) = Inr st'"
      and m: "bfs_mid g S cur (set (four_neighbors g (fst cur) (snd cur))) st'"
      by auto
    obtain vis1 d1 q1 where st': "st' = (vis1, d1, q1)" by (cases st')
    from m st' have inv1: "bfs_inv g S (vis1, d1, q1)" by (simp add: bfs_mid_finish)
    from "1.IH" [OF nz deq refl v [unfolded st'] refl refl] inv1
    obtain vis' d' where "bfs_loop g vis1 d1 q1 = Inr d'" "bfs_inv g S (vis', d', new_queue)"
      by blast
    moreover have "bfs_loop g vis d q = bfs_loop g vis1 d1 q1"
      using nz deq v st' by (simp add: bfs_loop.simps [of g vis d q])
    ultimately show ?thesis by auto
  qed
qed

subsection \<open>The finished search\<close>

lemma bfs_final_reach:
  assumes fin: "bfs_inv g S (vis, d, new_queue)"
  shows "reach g S p n \<Longrightarrow> p \<in> vset g vis \<and> at2 d p \<le> n"
proof (induction rule: reach.induct)
  case (seed p)
  with fin show ?case by (simp add: bfs_inv_def inv_fields_def)
next
  case (step p n q)
  from fin step.IH have "closed g vis d p"
    by (simp add: bfs_inv_def inv_order_def new_queue_def)
  with step have "q \<in> vset g vis \<and> at2 d q \<le> Suc (at2 d p)"
    unfolding closed_def by blast
  with step.IH show ?case by simp
qed

lemma bfs_final_shortest:
  assumes fin: "bfs_inv g S (vis, d, new_queue)" and p: "inside g p"
  shows "at2 d p = shortest g S p"
proof (cases "p \<in> vset g vis")
  case True
  with fin have r: "reach g S p (at2 d p)" by (simp add: bfs_inv_def inv_fields_def)
  have "(LEAST n. reach g S p n) = at2 d p"
  proof (rule Least_equality)
    show "reach g S p (at2 d p)" by (rule r)
  next
    fix n assume "reach g S p n"
    then show "at2 d p \<le> n" using bfs_final_reach [OF fin] by blast
  qed
  with r show ?thesis by (auto simp: shortest_def)
next
  case False
  then have "\<not> reach g S p n" for n using bfs_final_reach [OF fin] by blast
  moreover from fin False p have "at2 d p = sentinel g"
    by (simp add: bfs_inv_def inv_fields_def)
  ultimately show ?thesis by (simp add: shortest_def)
qed

lemma bfs_final_bound:
  assumes fin: "bfs_inv g S (vis, d, new_queue)" and p: "p \<in> vset g vis"
  shows "at2 d p < sentinel g"
proof -
  from fin p have "at2 d p < card (vset g vis)" by (simp add: bfs_inv_def inv_fields_def)
  moreover have "card (vset g vis) \<le> card {p. inside g p}"
    by (rule card_mono [OF finite_inside]) (auto simp: vset_def)
  ultimately show ?thesis by (simp add: card_inside)
qed

subsection \<open>Seeding\<close>

lemma seed_boundary_ok:
  assumes "grid_wf vis" "grid_height vis = grid_height g" "grid_width vis = grid_width g"
    "rect (grid_height g) (grid_width g) d" "\<forall>e \<in> set es. inside g e"
  shows "\<exists>vis' d'. seed_boundary vis d es = Inr (vis', d') \<and>
           grid_wf vis' \<and> grid_height vis' = grid_height g \<and> grid_width vis' = grid_width g \<and>
           rect (grid_height g) (grid_width g) d' \<and>
           (\<forall>p. inside g p \<longrightarrow> at2 (cells vis') p = (if p \<in> set es then FULL else at2 (cells vis) p)) \<and>
           (\<forall>p. inside g p \<longrightarrow> at2 d' p = (if p \<in> set es then 0 else at2 d p))"
  using assms
proof (induction es arbitrary: vis d)
  case Nil
  then show ?case by simp
next
  case (Cons e es)
  let ?vis1 = "mark vis e" and ?d1 = "upd2 d e 0"
  have e: "inside g e" using Cons.prems by simp
  have s1: "set_full vis (fst e) (snd e) = Inr ?vis1"
    using Cons.prems e by (cases e) simp
  have s2: "set2 d e 0 = Inr ?d1" using Cons.prems e by (simp add: set2_in)
  have wf1: "grid_wf ?vis1" using Cons.prems by (simp add: grid_wf_set_full)
  have r1: "rect (grid_height g) (grid_width g) ?d1" using Cons.prems by (simp add: rect_upd2)
  from Cons.IH [OF wf1 _ _ r1] Cons.prems obtain vis' d' where
    rec: "seed_boundary ?vis1 ?d1 es = Inr (vis', d')" and
    props: "grid_wf vis' \<and> grid_height vis' = grid_height g \<and> grid_width vis' = grid_width g \<and>
            rect (grid_height g) (grid_width g) d' \<and>
            (\<forall>p. inside g p \<longrightarrow> at2 (cells vis') p = (if p \<in> set es then FULL else at2 (cells ?vis1) p)) \<and>
            (\<forall>p. inside g p \<longrightarrow> at2 d' p = (if p \<in> set es then 0 else at2 ?d1 p))"
    by auto
  have "seed_boundary vis d (e # es) = Inr (vis', d')" using s1 s2 rec by simp
  moreover have "\<forall>p. inside g p \<longrightarrow> at2 (cells ?vis1) p = (if p = e then FULL else at2 (cells vis) p)"
    using Cons.prems e by (auto simp: grid_wf_def at2_upd2)
  moreover have "\<forall>p. inside g p \<longrightarrow> at2 ?d1 p = (if p = e then 0 else at2 d p)"
    using Cons.prems e by (auto simp: at2_upd2)
  ultimately show ?case using props by auto
qed

lemma seed_boundary_error:
  assumes "grid_wf vis" "grid_height vis = grid_height g" "grid_width vis = grid_width g"
    "rect (grid_height g) (grid_width g) d" "\<exists>e \<in> set es. \<not> inside g e"
  shows "seed_boundary vis d es = Inl IndexError"
  using assms
proof (induction es arbitrary: vis d)
  case Nil
  then show ?case by simp
next
  case (Cons e es)
  show ?case
  proof (cases "inside g e")
    case True
    have s1: "set_full vis (fst e) (snd e) = Inr (mark vis e)"
      using Cons.prems True by (cases e) simp
    have s2: "set2 d e 0 = Inr (upd2 d e 0)" using Cons.prems True by (simp add: set2_in)
    from Cons.prems True have "\<exists>e \<in> set es. \<not> inside g e" by auto
    with Cons.prems have "seed_boundary (mark vis e) (upd2 d e 0) es = Inl IndexError"
      by (intro Cons.IH) (simp_all add: grid_wf_set_full rect_upd2)
    with s1 s2 show ?thesis by simp
  next
    case False
    with Cons.prems have "set_full vis (fst e) (snd e) = Inl IndexError"
      by (cases e) (simp add: set_full_outside)
    then show ?thesis by simp
  qed
qed

lemma map_const_zero:
  "\<forall>x \<in> set xs. f x = (0::nat) \<Longrightarrow> sorted (map f xs)"
proof -
  assume "\<forall>x \<in> set xs. f x = (0::nat)"
  then have "map f xs = replicate (length xs) 0" by (induction xs) auto
  then show ?thesis by simp
qed

lemma bfs_inv_seeded:
  assumes wf: "grid_wf g" "grid_wf vis" "grid_height vis = grid_height g" "grid_width vis = grid_width g"
      "rect (grid_height g) (grid_width g) d"
    and q: "items q = es" and es: "\<forall>e \<in> set es. inside g e"
    and vis: "\<forall>p. inside g p \<longrightarrow> at2 (cells vis) p = (if p \<in> set es then FULL else EMPTY)"
    and d: "\<forall>p. inside g p \<longrightarrow> at2 d p = (if p \<in> set es then 0 else sentinel g)"
  shows "bfs_inv g (set es) (vis, d, q)"
proof -
  have V: "vset g vis = set es"
  proof
    show "vset g vis \<subseteq> set es"
    proof
      fix p assume "p \<in> vset g vis"
      then have p: "inside g p" "at2 (cells vis) p = FULL" by (auto simp: vset_def)
      from vis p(1) have "at2 (cells vis) p = (if p \<in> set es then FULL else EMPTY)" by blast
      with p(2) show "p \<in> set es" by (simp split: if_splits)
    qed
    show "set es \<subseteq> vset g vis" using vis es by (auto simp: vset_def)
  qed
  have "inv_wf g (vis, d, q)" using wf q es by (simp add: inv_wf_def)
  moreover have "inv_fields g (set es) (vis, d, q)"
    using V q es d by (auto simp: inv_fields_def card_gt_0_iff intro: reach.seed)
  moreover have "inv_order g (vis, d, q)"
    using V q es d by (auto simp: inv_order_def intro: map_const_zero)
  ultimately show ?thesis by (simp add: bfs_inv_def)
qed

subsection \<open>The distance field\<close>

lemma seeded_state:
  assumes wf: "grid_wf s" and ins: "\<forall>p \<in> set (sources s et). inside s p"
  shows "\<exists>vis d. seed_boundary (new_grid (grid_height s) (grid_width s)) (initial_field s)
                   (sources s et) = Inr (vis, d) \<and>
           bfs_inv s (set (sources s et))
             (vis, d, enqueue_all new_queue (sources s et))"
proof -
  let ?vis0 = "new_grid (grid_height s) (grid_width s)"
  have "grid_wf ?vis0" by (rule grid_wf_new_grid)
  moreover have "rect (grid_height s) (grid_width s) (initial_field s)"
    by (simp add: initial_field_def rect_replicate)
  ultimately obtain vis d where
    sd: "seed_boundary ?vis0 (initial_field s) (sources s et) = Inr (vis, d)" and
    props: "grid_wf vis \<and> grid_height vis = grid_height s \<and> grid_width vis = grid_width s \<and>
            rect (grid_height s) (grid_width s) d \<and>
            (\<forall>p. inside s p \<longrightarrow> at2 (cells vis) p =
                 (if p \<in> set (sources s et) then FULL else at2 (cells ?vis0) p)) \<and>
            (\<forall>p. inside s p \<longrightarrow> at2 d p =
                 (if p \<in> set (sources s et) then 0 else at2 (initial_field s) p))"
    using seed_boundary_ok [of ?vis0 s "initial_field s" "sources s et"] ins
    by (auto simp: new_grid_def)
  have "bfs_inv s (set (sources s et)) (vis, d, enqueue_all new_queue (sources s et))"
    using props wf ins
    by (intro bfs_inv_seeded)
       (auto simp: new_queue_def new_grid_def initial_field_def in_bounds_def)
  with sd show ?thesis by blast
qed

lemma compute_distance_field_unfold:
  "compute_distance_field s et =
     err_bind (seed_boundary (new_grid (grid_height s) (grid_width s)) (initial_field s) (sources s et))
       (\<lambda>(vis, d). bfs_loop s vis d (enqueue_all new_queue (sources s et)))"
  by (simp add: compute_distance_field_def sources_def queue_iter_def new_queue_def)

lemma compute_distance_field_final:
  assumes wf: "grid_wf s" and ins: "\<forall>p \<in> set (sources s et). inside s p"
  shows "\<exists>vis df. compute_distance_field s et = Inr df \<and>
           bfs_inv s (set (sources s et)) (vis, df, new_queue)"
proof -
  from seeded_state [OF wf ins] obtain vis d where
    sd: "seed_boundary (new_grid (grid_height s) (grid_width s)) (initial_field s) (sources s et)
           = Inr (vis, d)" and
    inv: "bfs_inv s (set (sources s et)) (vis, d, enqueue_all new_queue (sources s et))"
    by blast
  from bfs_loop_inv [OF inv] obtain vis' df where
    "bfs_loop s vis d (enqueue_all new_queue (sources s et)) = Inr df"
    "bfs_inv s (set (sources s et)) (vis', df, new_queue)"
    by blast
  with sd show ?thesis by (auto simp: compute_distance_field_unfold)
qed

lemma compute_distance_field_error_iff:
  assumes wf: "grid_wf s"
  shows "(\<exists>p \<in> set (sources s et). \<not> inside s p) \<longleftrightarrow> compute_distance_field s et = Inl IndexError"
proof
  assume "\<exists>p \<in> set (sources s et). \<not> inside s p"
  then have "seed_boundary (new_grid (grid_height s) (grid_width s)) (initial_field s) (sources s et)
               = Inl IndexError"
    by (intro seed_boundary_error)
       (simp_all add: grid_wf_def initial_field_def rect_replicate new_grid_def)
  then show "compute_distance_field s et = Inl IndexError"
    by (simp add: compute_distance_field_unfold)
next
  assume err: "compute_distance_field s et = Inl IndexError"
  show "\<exists>p \<in> set (sources s et). \<not> inside s p"
  proof (rule ccontr)
    assume "\<not> (\<exists>p \<in> set (sources s et). \<not> inside s p)"
    then have "\<forall>p \<in> set (sources s et). inside s p" by blast
    from compute_distance_field_final [OF wf this] err show False by auto
  qed
qed

lemma compute_distance_field_Inr:
  assumes "grid_wf s" "compute_distance_field s et = Inr df"
  shows "\<exists>vis. bfs_inv s (set (sources s et)) (vis, df, new_queue)"
proof -
  have "\<forall>p \<in> set (sources s et). inside s p"
    using compute_distance_field_error_iff [OF assms(1), of et] assms(2) by auto
  from compute_distance_field_final [OF assms(1) this] assms(2) show ?thesis by auto
qed

lemma reach_free_or_source: "reach g S p n \<Longrightarrow> p \<in> S \<or> free g p"
  by (induction rule: reach.induct) auto

lemma bfs_final_le_sentinel:
  assumes fin: "bfs_inv g S (vis, d, new_queue)" and p: "inside g p"
  shows "at2 d p \<le> sentinel g"
  using bfs_final_bound [OF fin] fin p
  by (cases "p \<in> vset g vis") (auto simp: bfs_inv_def inv_fields_def less_imp_le)

text \<open>
  C1. \<open>compute_distance_field\<close> refines the shortest-path specification: on a
  well-formed grid whose sources all lie inside it, the search returns a
  \<open>height \<times> width\<close> field whose value at every cell is the length of a
  shortest four-way walk from a source through obstacle-free cells, or the
  sentinel \<open>height * width\<close> where there is no such walk.
\<close>

theorem compute_distance_field_correct:
  assumes "grid_wf s" and "\<forall>p \<in> set (sources s et). inside s p"
  shows "\<exists>df. compute_distance_field s et = Inr df \<and> rect (grid_height s) (grid_width s) df \<and>
           (\<forall>p. inside s p \<longrightarrow> at2 df p = shortest s (set (sources s et)) p)"
proof -
  from compute_distance_field_final [OF assms] obtain vis df where
    c: "compute_distance_field s et = Inr df" and
    fin: "bfs_inv s (set (sources s et)) (vis, df, new_queue)" by blast
  from fin have "rect (grid_height s) (grid_width s) df" by (simp add: bfs_inv_def inv_wf_def)
  moreover have "\<forall>p. inside s p \<longrightarrow> at2 df p = shortest s (set (sources s et)) p"
    using bfs_final_shortest [OF fin] by blast
  ultimately show ?thesis using c by blast
qed

text \<open>
  C2. An obstacle cell on which no source entity stands keeps the sentinel:
  the search never enters it.
\<close>

theorem distance_field_obstacle:
  assumes "grid_wf s" "compute_distance_field s et = Inr df"
    and "inside s p" "at2 (cells s) p = FULL" "p \<notin> set (sources s et)"
  shows "at2 df p = grid_height s * grid_width s"
proof -
  from compute_distance_field_Inr [OF assms(1,2)] obtain vis where
    fin: "bfs_inv s (set (sources s et)) (vis, df, new_queue)" by blast
  have "\<not> reach s (set (sources s et)) p n" for n
    using reach_free_or_source [of s "set (sources s et)" p n] assms(4,5) by auto
  then show ?thesis
    using bfs_final_shortest [OF fin assms(3)] by (simp add: shortest_def)
qed

text \<open>C3. Every source entity's own cell has distance 0.\<close>

theorem distance_field_sources_zero:
  assumes "grid_wf s" "compute_distance_field s et = Inr df" "p \<in> set (sources s et)"
  shows "at2 df p = 0"
proof -
  from compute_distance_field_Inr [OF assms(1,2)] obtain vis where
    fin: "bfs_inv s (set (sources s et)) (vis, df, new_queue)" by blast
  with assms(3) show ?thesis by (simp add: bfs_inv_def inv_fields_def)
qed

text \<open>
  C4. The field grows by at most one along a four-way step into a free cell,
  from any cell inside the grid (the BFS Lipschitz property).
\<close>

theorem distance_field_step:
  assumes "grid_wf s" "compute_distance_field s et = Inr df"
    and "inside s p" "inside s q" "adj4 p q" "at2 (cells s) q = EMPTY"
  shows "at2 df q \<le> Suc (at2 df p)"
proof -
  from compute_distance_field_Inr [OF assms(1,2)] obtain vis where
    fin: "bfs_inv s (set (sources s et)) (vis, df, new_queue)" by blast
  show ?thesis
  proof (cases "p \<in> vset s vis")
    case True
    with fin have "closed s vis df p" by (simp add: bfs_inv_def inv_order_def new_queue_def)
    with assms(4,5,6) show ?thesis unfolding closed_def by blast
  next
    case False
    with fin assms(3) have dp: "at2 df p = grid_height s * grid_width s"
      by (simp add: bfs_inv_def inv_fields_def)
    have "at2 df q \<le> grid_height s * grid_width s"
      by (rule bfs_final_le_sentinel [OF fin assms(4)])
    with dp show ?thesis by simp
  qed
qed

text \<open>
  C5. The sentinel is unambiguous: a cell's value is below \<open>height * width\<close>
  exactly when some source reaches it, and never above it.
\<close>

theorem distance_field_sentinel_iff:
  assumes "grid_wf s" "compute_distance_field s et = Inr df" "inside s p"
  shows "at2 df p \<le> grid_height s * grid_width s \<and>
         (at2 df p < grid_height s * grid_width s \<longleftrightarrow> (\<exists>n. reach s (set (sources s et)) p n))"
proof -
  from compute_distance_field_Inr [OF assms(1,2)] obtain vis where
    fin: "bfs_inv s (set (sources s et)) (vis, df, new_queue)" by blast
  have "p \<in> vset s vis \<longleftrightarrow> (\<exists>n. reach s (set (sources s et)) p n)"
  proof
    assume "p \<in> vset s vis"
    with fin show "\<exists>n. reach s (set (sources s et)) p n" by (auto simp: bfs_inv_def inv_fields_def)
  next
    assume "\<exists>n. reach s (set (sources s et)) p n"
    then show "p \<in> vset s vis" using bfs_final_reach [OF fin] by blast
  qed
  moreover have "p \<in> vset s vis \<Longrightarrow> at2 df p < grid_height s * grid_width s"
    by (rule bfs_final_bound [OF fin])
  moreover have "p \<notin> vset s vis \<Longrightarrow> at2 df p = grid_height s * grid_width s"
    using fin assms(3) by (simp add: bfs_inv_def inv_fields_def)
  ultimately show ?thesis by (cases "p \<in> vset s vis") auto
qed

text \<open>
  C6. With no entity of the requested type the search returns the initial
  field: every cell holds the sentinel.
\<close>

theorem distance_field_no_sources:
  "sources s et = [] \<Longrightarrow> compute_distance_field s et = Inr (initial_field s)"
  by (simp add: compute_distance_field_unfold bfs_loop.simps queue_len_def new_queue_def)

end
