(* ===== verification/Movement.thy ===== *)
theory Movement
  imports Apocalypse
begin

text \<open>
  The movement policies of \<open>src/zombie_apocalypse.py\<close> (\<open>move_humans\<close>,
  lines 139-161, and \<open>move_zombies\<close>, lines 165-187) against the
  specification's words (section 4.3): a human moves to the free neighbour
  (of eight) with the strictly greatest zombie distance if one exceeds its own
  cell's, ties going to the first in neighbour order, and otherwise stays; a
  zombie does the same with the four-way neighbours and the least human
  distance. \<open>flee_target\<close> and \<open>chase_target\<close> state these choices directly;
  the loops of the code are proved to compute them. All entities move from one
  snapshot: each new position depends on its own old position, the obstacle
  grid and the field only.
\<close>

definition flee_target :: "'a grid_scheme \<Rightarrow> field \<Rightarrow> pos \<Rightarrow> pos" where
  "flee_target g zf h =
     (let cands = filter (free g) (eight_neighbors g (fst h) (snd h));
          m = fold max (map (at2 zf) cands) (at2 zf h)
      in if m = at2 zf h then h else hd (filter (\<lambda>n. at2 zf n = m) cands))"

definition chase_target :: "'a grid_scheme \<Rightarrow> field \<Rightarrow> pos \<Rightarrow> pos" where
  "chase_target g hf z =
     (let cands = filter (free g) (four_neighbors g (fst z) (snd z));
          m = fold min (map (at2 hf) cands) (at2 hf z)
      in if m = at2 hf z then z else hd (filter (\<lambda>n. at2 hf n = m) cands))"

text \<open>Entities inside the grid and off the obstacles: the state invariant.\<close>

definition entities_ok :: "apocalypse \<Rightarrow> bool" where
  "entities_ok s \<longleftrightarrow> (\<forall>p \<in> set (humans s) \<union> set (zombies s). inside s p \<and> free s p)"

subsection \<open>The loops without errors\<close>

lemma best_human_move_fold:
  assumes "grid_wf s" "rect (grid_height s) (grid_width s) zf" "\<forall>n \<in> set ns. inside s n"
  shows "best_human_move s zf acc ns =
           Inr (fold (\<lambda>n (d, b). if free s n \<and> d < at2 zf n then (at2 zf n, n) else (d, b)) ns acc)"
  using assms
proof (induction ns arbitrary: acc)
  case Nil
  then show ?case by simp
next
  case (Cons n ns)
  obtain d b where acc: "acc = (d, b)" by (cases acc)
  from Cons.prems have n: "inside s n" by simp
  with Cons.prems have e: "is_empty s (fst n) (snd n) = Inr (free s n)" by (cases n) simp
  from Cons.prems n have z: "get2 zf n = Inr (at2 zf n)" by (simp add: get2_in)
  show ?case using Cons.IH Cons.prems e z by (simp add: acc)
qed

lemma best_zombie_move_fold:
  assumes "grid_wf s" "rect (grid_height s) (grid_width s) hf" "\<forall>n \<in> set ns. inside s n"
  shows "best_zombie_move s hf acc ns =
           Inr (fold (\<lambda>n (d, b). if free s n \<and> at2 hf n < d then (at2 hf n, n) else (d, b)) ns acc)"
  using assms
proof (induction ns arbitrary: acc)
  case Nil
  then show ?case by simp
next
  case (Cons n ns)
  obtain d b where acc: "acc = (d, b)" by (cases acc)
  from Cons.prems have n: "inside s n" by simp
  with Cons.prems have e: "is_empty s (fst n) (snd n) = Inr (free s n)" by (cases n) simp
  from Cons.prems n have z: "get2 hf n = Inr (at2 hf n)" by (simp add: get2_in)
  show ?case using Cons.IH Cons.prems e z by (simp add: acc)
qed

subsection \<open>The strict-improvement fold picks the first extremum\<close>

lemma fold_max_ge: "(d :: 'a :: linorder) \<le> fold max xs d"
proof (induction xs arbitrary: d)
  case Nil
  then show ?case by simp
next
  case (Cons a xs)
  have "max a d \<le> fold max xs (max a d)" by (rule Cons.IH)
  then show ?case by simp
qed

lemma fold_min_le: "fold min xs d \<le> (d :: 'a :: linorder)"
proof (induction xs arbitrary: d)
  case Nil
  then show ?case by simp
next
  case (Cons a xs)
  have "fold min xs (min a d) \<le> min a d" by (rule Cons.IH)
  then show ?case by simp
qed

lemma fold_best_max:
  fixes f :: "'a \<Rightarrow> nat"
  shows "fold (\<lambda>n (d, b). if P n \<and> d < f n then (f n, n) else (d, b)) ns (d0, b0) =
   (let m = fold max (map f (filter P ns)) d0
    in (m, if m = d0 then b0 else hd (filter (\<lambda>n. f n = m) (filter P ns))))"
proof (induction ns arbitrary: d0 b0)
  case Nil
  then show ?case by simp
next
  case (Cons n ns)
  show ?case
  proof (cases "P n \<and> d0 < f n")
    case True
    from True have "d0 \<le> f n" by (simp add: less_imp_le)
    then have "max (f n) d0 = f n" by (rule max_absorb1)
    then have "fold max (map f (filter P ns)) (max (f n) d0) = fold max (map f (filter P ns)) (f n)"
      by simp
    moreover have "f n \<le> fold max (map f (filter P ns)) (f n)" by (rule fold_max_ge)
    ultimately show ?thesis using True Cons.IH [of "f n" n] by (auto simp: Let_def)
  next
    case False
    show ?thesis
    proof (cases "P n")
      case True
      with False have le: "f n \<le> d0" by simp
      then have "fold max (map f (filter P ns)) (max (f n) d0) = fold max (map f (filter P ns)) d0"
        by (simp add: max_def)
      moreover have "d0 \<le> fold max (map f (filter P ns)) d0" by (rule fold_max_ge)
      ultimately show ?thesis using True le Cons.IH [of d0 b0] by (auto simp: Let_def)
    next
      case False
      then show ?thesis using Cons.IH [of d0 b0] by (simp add: Let_def)
    qed
  qed
qed

lemma fold_best_min:
  fixes f :: "'a \<Rightarrow> nat"
  shows "fold (\<lambda>n (d, b). if P n \<and> f n < d then (f n, n) else (d, b)) ns (d0, b0) =
   (let m = fold min (map f (filter P ns)) d0
    in (m, if m = d0 then b0 else hd (filter (\<lambda>n. f n = m) (filter P ns))))"
proof (induction ns arbitrary: d0 b0)
  case Nil
  then show ?case by simp
next
  case (Cons n ns)
  show ?case
  proof (cases "P n \<and> f n < d0")
    case True
    from True have "f n \<le> d0" by (simp add: less_imp_le)
    then have "min (f n) d0 = f n" by (rule min_absorb1)
    then have "fold min (map f (filter P ns)) (min (f n) d0) = fold min (map f (filter P ns)) (f n)"
      by simp
    moreover have "fold min (map f (filter P ns)) (f n) \<le> f n" by (rule fold_min_le)
    ultimately show ?thesis using True Cons.IH [of "f n" n] by (auto simp: Let_def)
  next
    case False
    show ?thesis
    proof (cases "P n")
      case True
      with False have le: "d0 \<le> f n" by simp
      then have "fold min (map f (filter P ns)) (min (f n) d0) = fold min (map f (filter P ns)) d0"
        by (simp add: min_def)
      moreover have "fold min (map f (filter P ns)) d0 \<le> d0" by (rule fold_min_le)
      ultimately show ?thesis using True le Cons.IH [of d0 b0] by (auto simp: Let_def)
    next
      case False
      then show ?thesis using Cons.IH [of d0 b0] by (simp add: Let_def)
    qed
  qed
qed

subsection \<open>What one decision can return\<close>

lemma is_empty_True:
  "grid_wf s \<Longrightarrow> is_empty s (fst p) (snd p) = Inr True \<Longrightarrow> inside s p \<and> free s p"
  by (auto simp: is_empty_def grid_wf_def rect_def in_bounds_def err_bind_Inr_iff dest!: get2_Inr)

lemma best_human_move_result:
  "best_human_move s zf (d, b) ns = Inr (d', b') \<Longrightarrow>
   d \<le> d' \<and> ((b' = b \<and> d' = d) \<or>
     (b' \<in> set ns \<and> is_empty s (fst b') (snd b') = Inr True \<and> get2 zf b' = Inr d'))"
proof (induction ns arbitrary: d b)
  case Nil
  then show ?case by simp
next
  case (Cons n ns)
  from Cons.prems obtain e where e: "is_empty s (fst n) (snd n) = Inr e"
    by (cases "is_empty s (fst n) (snd n)") auto
  show ?case
  proof (cases e)
    case True
    with Cons.prems e obtain dn where dn: "get2 zf n = Inr dn"
      by (cases "get2 zf n") auto
    show ?thesis
    proof (cases "d < dn")
      case True
      with Cons.prems e \<open>e\<close> dn have "best_human_move s zf (dn, n) ns = Inr (d', b')" by simp
      from Cons.IH [OF this] True e \<open>e\<close> dn show ?thesis by auto
    next
      case False
      with Cons.prems e \<open>e\<close> dn have "best_human_move s zf (d, b) ns = Inr (d', b')" by simp
      from Cons.IH [OF this] show ?thesis by auto
    qed
  next
    case False
    with Cons.prems e have "best_human_move s zf (d, b) ns = Inr (d', b')" by simp
    from Cons.IH [OF this] show ?thesis by auto
  qed
qed

lemma best_zombie_move_result:
  "best_zombie_move s hf (d, b) ns = Inr (d', b') \<Longrightarrow>
   d' \<le> d \<and> ((b' = b \<and> d' = d) \<or>
     (b' \<in> set ns \<and> is_empty s (fst b') (snd b') = Inr True \<and> get2 hf b' = Inr d'))"
proof (induction ns arbitrary: d b)
  case Nil
  then show ?case by simp
next
  case (Cons n ns)
  from Cons.prems obtain e where e: "is_empty s (fst n) (snd n) = Inr e"
    by (cases "is_empty s (fst n) (snd n)") auto
  show ?case
  proof (cases e)
    case True
    with Cons.prems e obtain dn where dn: "get2 hf n = Inr dn"
      by (cases "get2 hf n") auto
    show ?thesis
    proof (cases "dn < d")
      case True
      with Cons.prems e \<open>e\<close> dn have "best_zombie_move s hf (dn, n) ns = Inr (d', b')" by simp
      from Cons.IH [OF this] True e \<open>e\<close> dn show ?thesis by auto
    next
      case False
      with Cons.prems e \<open>e\<close> dn have "best_zombie_move s hf (d, b) ns = Inr (d', b')" by simp
      from Cons.IH [OF this] show ?thesis by auto
    qed
  next
    case False
    with Cons.prems e have "best_zombie_move s hf (d, b) ns = Inr (d', b')" by simp
    from Cons.IH [OF this] show ?thesis by auto
  qed
qed

lemma move_human_result:
  assumes "grid_wf s" "move_human s zf h = Inr h'"
  shows "at2 zf h \<le> at2 zf h' \<and>
         (h' = h \<or> (h' \<in> set (eight_neighbors s (fst h) (snd h)) \<and> inside s h' \<and> free s h'))"
proof -
  from assms(2) obtain d0 d' where g: "get2 zf h = Inr d0"
    and b: "best_human_move s zf (d0, h) (eight_neighbors s (fst h) (snd h)) = Inr (d', h')"
    by (auto simp: move_human_def Let_def err_bind_Inr_iff split: prod.splits)
  from g have d0: "d0 = at2 zf h" by (auto dest: get2_Inr)
  from best_human_move_result [OF b] d0 assms(1) show ?thesis
    by (auto dest: get2_Inr is_empty_True)
qed

lemma move_zombie_result:
  assumes "grid_wf s" "move_zombie s hf z = Inr z'"
  shows "at2 hf z' \<le> at2 hf z \<and>
         (z' = z \<or> (z' \<in> set (four_neighbors s (fst z) (snd z)) \<and> inside s z' \<and> free s z'))"
proof -
  from assms(2) obtain d0 d' where g: "get2 hf z = Inr d0"
    and b: "best_zombie_move s hf (d0, z) (four_neighbors s (fst z) (snd z)) = Inr (d', z')"
    by (auto simp: move_zombie_def Let_def err_bind_Inr_iff split: prod.splits)
  from g have d0: "d0 = at2 hf z" by (auto dest: get2_Inr)
  from best_zombie_move_result [OF b] d0 assms(1) show ?thesis
    by (auto dest: get2_Inr is_empty_True)
qed

lemma move_human_eq:
  assumes "grid_wf s" "rect (grid_height s) (grid_width s) zf" "inside s h"
  shows "move_human s zf h = Inr (flee_target s zf h)"
proof -
  have ins: "\<forall>n \<in> set (eight_neighbors s (fst h) (snd h)). inside s n"
    using assms(3) eight_neighbors_inside [of s "fst h" "snd h"] by simp
  have g: "get2 zf h = Inr (at2 zf h)" using assms(2,3) by (rule get2_in)
  show ?thesis
    using best_human_move_fold [OF assms(1,2) ins, of "(at2 zf h, h)"]
      fold_best_max [of "\<lambda>n. free s n" "at2 zf"] g
    by (simp add: move_human_def flee_target_def Let_def)
qed

lemma move_zombie_eq:
  assumes "grid_wf s" "rect (grid_height s) (grid_width s) hf" "inside s z"
  shows "move_zombie s hf z = Inr (chase_target s hf z)"
proof -
  have ins: "\<forall>n \<in> set (four_neighbors s (fst z) (snd z)). inside s n"
    using assms(3) four_neighbors_inside [of s "fst z" "snd z"] by simp
  have g: "get2 hf z = Inr (at2 hf z)" using assms(2,3) by (rule get2_in)
  show ?thesis
    using best_zombie_move_fold [OF assms(1,2) ins, of "(at2 hf z, z)"]
      fold_best_min [of "\<lambda>n. free s n" "at2 hf"] g
    by (simp add: move_zombie_def chase_target_def Let_def)
qed

lemma move_human_outside:
  assumes "rect (grid_height s) (grid_width s) zf" "\<not> inside s h"
  shows "move_human s zf h = Inl IndexError"
  using assms by (simp add: move_human_def Let_def get2_out)

lemma move_human_Inr_or_IndexError:
  assumes "grid_wf s" "rect (grid_height s) (grid_width s) zf"
  shows "move_human s zf h = Inl IndexError \<or> (\<exists>h'. move_human s zf h = Inr h')"
  using assms move_human_eq move_human_outside by (cases "inside s h") auto

lemma move_zombie_outside:
  assumes "rect (grid_height s) (grid_width s) hf" "\<not> inside s z"
  shows "move_zombie s hf z = Inl IndexError"
  using assms by (simp add: move_zombie_def Let_def get2_out)

lemma move_humans_list:
  "move_humans s zf = Inr s' \<Longrightarrow>
   list_all2 (\<lambda>h h'. move_human s zf h = Inr h') (humans s) (humans s') \<and>
   s' = s\<lparr>human_list := humans s'\<rparr>"
  by (auto simp: move_humans_def humans_def err_bind_Inr_iff map_err_Inr_iff)

lemma move_zombies_list:
  "move_zombies s hf = Inr s' \<Longrightarrow>
   list_all2 (\<lambda>z z'. move_zombie s hf z = Inr z') (zombies s) (zombies s') \<and>
   s' = s\<lparr>zombie_list := zombies s'\<rparr>"
  by (auto simp: move_zombies_def zombies_def err_bind_Inr_iff map_err_Inr_iff)

text \<open>
  C7. \<open>move_humans\<close> never puts a human on an obstacle or outside the grid:
  every human either stays or moves to one of its eight neighbours that is
  inside and free, and never to a cell nearer the zombies. The obstacle grid
  and the zombies are untouched.
\<close>

theorem move_humans_safe:
  assumes "grid_wf s" "move_humans s zf = Inr s'"
  shows "list_all2 (\<lambda>h h'. at2 zf h \<le> at2 zf h' \<and>
           (h' = h \<or> (h' \<in> set (eight_neighbors s (fst h) (snd h)) \<and> inside s h' \<and> free s h')))
           (humans s) (humans s') \<and>
         zombies s' = zombies s \<and> cells s' = cells s"
proof -
  from move_humans_list [OF assms(2)] have
    l: "list_all2 (\<lambda>h h'. move_human s zf h = Inr h') (humans s) (humans s')" and
    s': "s' = s\<lparr>human_list := humans s'\<rparr>" by blast+
  from l have "list_all2 (\<lambda>h h'. at2 zf h \<le> at2 zf h' \<and>
           (h' = h \<or> (h' \<in> set (eight_neighbors s (fst h) (snd h)) \<and> inside s h' \<and> free s h')))
           (humans s) (humans s')"
    by (rule list_all2_mono) (rule move_human_result [OF assms(1)])
  moreover have "zombies s' = zombies s \<and> cells s' = cells s"
    using arg_cong [OF s', of zombies] arg_cong [OF s', of cells] by (simp add: zombies_def)
  ultimately show ?thesis by blast
qed

text \<open>
  C8. With a field of the grid's shape and every human inside, the whole
  human list moves at once: each human's new cell is \<open>flee_target\<close> of its
  old cell, computed from the same snapshot of obstacles and field, so no
  human's move influences another's.
\<close>

theorem move_humans_batch:
  assumes "grid_wf s" "rect (grid_height s) (grid_width s) zf" "\<forall>h \<in> set (humans s). inside s h"
  shows "move_humans s zf = Inr (s\<lparr>human_list := map (flee_target s zf) (humans s)\<rparr>)"
proof -
  have "\<forall>h \<in> set (humans s). move_human s zf h = Inr (flee_target s zf h)"
    using assms move_human_eq by blast
  then have "map_err (move_human s zf) (humans s) = Inr (map (flee_target s zf) (humans s))"
    by (rule map_err_all_Inr)
  then show ?thesis by (simp add: move_humans_def)
qed

text \<open>
  C9. \<open>move_zombies\<close> never moves a zombie to a cell with a greater human
  distance than its own, and only to a free four-way neighbour inside the
  grid; the obstacle grid and the humans are untouched.
\<close>

theorem move_zombies_safe:
  assumes "grid_wf s" "move_zombies s hf = Inr s'"
  shows "list_all2 (\<lambda>z z'. at2 hf z' \<le> at2 hf z \<and>
           (z' = z \<or> (z' \<in> set (four_neighbors s (fst z) (snd z)) \<and> inside s z' \<and> free s z')))
           (zombies s) (zombies s') \<and>
         humans s' = humans s \<and> cells s' = cells s"
proof -
  from move_zombies_list [OF assms(2)] have
    l: "list_all2 (\<lambda>z z'. move_zombie s hf z = Inr z') (zombies s) (zombies s')" and
    s': "s' = s\<lparr>zombie_list := zombies s'\<rparr>" by blast+
  from l have "list_all2 (\<lambda>z z'. at2 hf z' \<le> at2 hf z \<and>
           (z' = z \<or> (z' \<in> set (four_neighbors s (fst z) (snd z)) \<and> inside s z' \<and> free s z')))
           (zombies s) (zombies s')"
    by (rule list_all2_mono) (rule move_zombie_result [OF assms(1)])
  moreover have "humans s' = humans s \<and> cells s' = cells s"
    using arg_cong [OF s', of humans] arg_cong [OF s', of cells] by (simp add: humans_def)
  ultimately show ?thesis by blast
qed

text \<open>
  C10. The zombie list moves at once: each zombie's new cell is
  \<open>chase_target\<close> of its old cell on the same snapshot.
\<close>

theorem move_zombies_batch:
  assumes "grid_wf s" "rect (grid_height s) (grid_width s) hf" "\<forall>z \<in> set (zombies s). inside s z"
  shows "move_zombies s hf = Inr (s\<lparr>zombie_list := map (chase_target s hf) (zombies s)\<rparr>)"
proof -
  have "\<forall>z \<in> set (zombies s). move_zombie s hf z = Inr (chase_target s hf z)"
    using assms move_zombie_eq by blast
  then have "map_err (move_zombie s hf) (zombies s) = Inr (map (chase_target s hf) (zombies s))"
    by (rule map_err_all_Inr)
  then show ?thesis by (simp add: move_zombies_def)
qed

subsection \<open>The entity invariant\<close>

lemma entities_ok_move_humans:
  assumes "grid_wf s" "entities_ok s" "move_humans s zf = Inr s'"
  shows "entities_ok s' \<and> grid_wf s' \<and> grid_height s' = grid_height s \<and> grid_width s' = grid_width s"
proof -
  from move_humans_list [OF assms(3)] have s': "s' = s\<lparr>human_list := humans s'\<rparr>" by blast
  from move_humans_list [OF assms(3)]
  have l: "list_all2 (\<lambda>h h'. move_human s zf h = Inr h') (humans s) (humans s')" by blast
  have a2: "list_all2 (\<lambda>h h'. h' = h \<or> inside s h' \<and> free s h') (humans s) (humans s')"
  proof (rule list_all2_mono [OF l])
    fix h h' assume "move_human s zf h = Inr h'"
    from move_human_result [OF assms(1) this] show "h' = h \<or> inside s h' \<and> free s h'" by blast
  qed
  then have "\<forall>h' \<in> set (humans s'). \<exists>h \<in> set (humans s). h' = h \<or> inside s h' \<and> free s h'"
    using list_all2_in_set2 [OF a2] by blast
  with assms(2) have "\<forall>h' \<in> set (humans s'). inside s h' \<and> free s h'"
    by (auto simp: entities_ok_def)
  moreover have "zombies s' = zombies s" "cells s' = cells s" "grid_height s' = grid_height s"
    "grid_width s' = grid_width s"
    using arg_cong [OF s', of zombies] arg_cong [OF s', of cells] arg_cong [OF s', of grid_height]
      arg_cong [OF s', of grid_width] by (simp_all add: zombies_def)
  ultimately show ?thesis
    using assms(1,2) by (auto simp: entities_ok_def grid_wf_def)
qed

lemma entities_ok_move_zombies:
  assumes "grid_wf s" "entities_ok s" "move_zombies s hf = Inr s'"
  shows "entities_ok s' \<and> grid_wf s' \<and> grid_height s' = grid_height s \<and> grid_width s' = grid_width s"
proof -
  from move_zombies_list [OF assms(3)] have s': "s' = s\<lparr>zombie_list := zombies s'\<rparr>" by blast
  from move_zombies_list [OF assms(3)]
  have l: "list_all2 (\<lambda>z z'. move_zombie s hf z = Inr z') (zombies s) (zombies s')" by blast
  have a2: "list_all2 (\<lambda>z z'. z' = z \<or> inside s z' \<and> free s z') (zombies s) (zombies s')"
  proof (rule list_all2_mono [OF l])
    fix z z' assume "move_zombie s hf z = Inr z'"
    from move_zombie_result [OF assms(1) this] show "z' = z \<or> inside s z' \<and> free s z'" by blast
  qed
  then have "\<forall>z' \<in> set (zombies s'). \<exists>z \<in> set (zombies s). z' = z \<or> inside s z' \<and> free s z'"
    using list_all2_in_set2 [OF a2] by blast
  with assms(2) have "\<forall>z' \<in> set (zombies s'). inside s z' \<and> free s z'"
    by (auto simp: entities_ok_def)
  moreover have "humans s' = humans s" "cells s' = cells s" "grid_height s' = grid_height s"
    "grid_width s' = grid_width s"
    using arg_cong [OF s', of humans] arg_cong [OF s', of cells] arg_cong [OF s', of grid_height]
      arg_cong [OF s', of grid_width] by (simp_all add: humans_def)
  ultimately show ?thesis
    using assms(1,2) by (auto simp: entities_ok_def grid_wf_def)
qed

end
