(* ===== verification/Simulation.thy ===== *)
theory Simulation
  imports Distance_Field Movement
begin

text \<open>
  One simulation step as the driver runs it (the GUI module \<open>zombie_gui\<close> is
  not in the repository; the order is the specification's, section 6): the
  zombie distance field, the humans' move, the human distance field of the new
  positions, the zombies' move. \<open>run n\<close> performs \<open>n\<close> steps and stops at the
  first exception. The state invariant \<open>sim_ok\<close> (a well-formed grid with
  every entity inside and off the obstacles) makes every step succeed and is
  kept by it, so it holds along every run.
\<close>

definition tick :: "apocalypse \<Rightarrow> apocalypse result" where
  "tick s =
     err_bind (compute_distance_field s ZOMBIE) (\<lambda>zombie_distance.
       err_bind (move_humans s zombie_distance) (\<lambda>s1.
         err_bind (compute_distance_field s1 HUMAN) (\<lambda>human_distance.
           move_zombies s1 human_distance)))"

text \<open>
  The reading of the specification (section 4.3) under which both fields come
  from the pre-tick snapshot.
\<close>

definition tick_snapshot :: "apocalypse \<Rightarrow> apocalypse result" where
  "tick_snapshot s =
     err_bind (compute_distance_field s ZOMBIE) (\<lambda>zombie_distance.
       err_bind (compute_distance_field s HUMAN) (\<lambda>human_distance.
         err_bind (move_humans s zombie_distance) (\<lambda>s1.
           move_zombies (s1\<lparr>zombie_list := zombie_list s\<rparr>) human_distance)))"

fun run :: "nat \<Rightarrow> apocalypse \<Rightarrow> apocalypse result" where
  "run 0 s = Inr s"
| "run (Suc n) s = err_bind (tick s) (run n)"

definition sim_ok :: "apocalypse \<Rightarrow> bool" where
  "sim_ok s \<longleftrightarrow> grid_wf s \<and> entities_ok s"

lemma sim_ok_sources:
  "sim_ok s \<Longrightarrow> \<forall>p \<in> set (sources s et). inside s p"
  by (auto simp: sim_ok_def entities_ok_def sources_def)

lemma field_of_sim_ok:
  assumes "sim_ok s"
  obtains df where "compute_distance_field s et = Inr df" "rect (grid_height s) (grid_width s) df"
proof -
  from assms have "grid_wf s" by (simp add: sim_ok_def)
  from compute_distance_field_final [OF this sim_ok_sources [OF assms, of et]] obtain vis df where
    "compute_distance_field s et = Inr df" "bfs_inv s (set (sources s et)) (vis, df, new_queue)"
    by blast
  then show ?thesis by (auto simp: bfs_inv_def inv_wf_def intro: that)
qed

lemma move_humans_sim_ok:
  assumes "sim_ok s" "rect (grid_height s) (grid_width s) zf"
  obtains s1 where "move_humans s zf = Inr s1" "sim_ok s1" "cells s1 = cells s"
    "grid_height s1 = grid_height s" "grid_width s1 = grid_width s"
    "length (humans s1) = length (humans s)" "zombies s1 = zombies s"
proof -
  have ins: "\<forall>h \<in> set (humans s). inside s h" using assms(1) by (auto simp: sim_ok_def entities_ok_def)
  let ?s1 = "s\<lparr>human_list := map (flee_target s zf) (humans s)\<rparr>"
  have "\<forall>h \<in> set (humans s). move_human s zf h = Inr (flee_target s zf h)"
    using assms ins move_human_eq by (auto simp: sim_ok_def)
  from map_err_all_Inr [OF this] have m: "move_humans s zf = Inr ?s1"
    by (simp add: move_humans_def)
  with entities_ok_move_humans [OF _ _ m] assms(1) have ok: "sim_ok ?s1"
    by (simp add: sim_ok_def)
  show ?thesis by (rule that [OF m ok]) (simp_all add: humans_def zombies_def)
qed

lemma move_zombies_sim_ok:
  assumes "sim_ok s" "rect (grid_height s) (grid_width s) hf"
  obtains s1 where "move_zombies s hf = Inr s1" "sim_ok s1" "cells s1 = cells s"
    "grid_height s1 = grid_height s" "grid_width s1 = grid_width s"
    "length (zombies s1) = length (zombies s)" "humans s1 = humans s"
proof -
  have ins: "\<forall>z \<in> set (zombies s). inside s z" using assms(1) by (auto simp: sim_ok_def entities_ok_def)
  let ?s1 = "s\<lparr>zombie_list := map (chase_target s hf) (zombies s)\<rparr>"
  have "\<forall>z \<in> set (zombies s). move_zombie s hf z = Inr (chase_target s hf z)"
    using assms ins move_zombie_eq by (auto simp: sim_ok_def)
  from map_err_all_Inr [OF this] have m: "move_zombies s hf = Inr ?s1"
    by (simp add: move_zombies_def)
  with entities_ok_move_zombies [OF _ _ m] assms(1) have ok: "sim_ok ?s1"
    by (simp add: sim_ok_def)
  show ?thesis by (rule that [OF m ok]) (simp_all add: humans_def zombies_def)
qed

lemma tick_ok:
  assumes "sim_ok s"
  shows "\<exists>s'. tick s = Inr s' \<and> sim_ok s' \<and> cells s' = cells s \<and>
           grid_height s' = grid_height s \<and> grid_width s' = grid_width s \<and>
           num_humans s' = num_humans s \<and> num_zombies s' = num_zombies s"
proof -
  obtain zf where zf: "compute_distance_field s ZOMBIE = Inr zf"
    "rect (grid_height s) (grid_width s) zf"
    using field_of_sim_ok [OF assms] by blast
  obtain s1 where s1: "move_humans s zf = Inr s1" "sim_ok s1" "cells s1 = cells s"
    "grid_height s1 = grid_height s" "grid_width s1 = grid_width s"
    "length (humans s1) = length (humans s)" "zombies s1 = zombies s"
    using move_humans_sim_ok [OF assms zf(2)] by blast
  obtain hf where hf: "compute_distance_field s1 HUMAN = Inr hf"
    "rect (grid_height s1) (grid_width s1) hf"
    using field_of_sim_ok [OF s1(2)] by blast
  obtain s2 where s2: "move_zombies s1 hf = Inr s2" "sim_ok s2" "cells s2 = cells s1"
    "grid_height s2 = grid_height s1" "grid_width s2 = grid_width s1"
    "length (zombies s2) = length (zombies s1)" "humans s2 = humans s1"
    using move_zombies_sim_ok [OF s1(2) hf(2)] by blast
  have "tick s = Inr s2" using zf(1) s1(1) hf(1) s2(1) by (simp add: tick_def)
  with s1 s2 show ?thesis by (auto simp: num_humans_def num_zombies_def humans_def zombies_def)
qed

text \<open>
  C11. From a state satisfying the invariant, every run of any length
  succeeds (no step raises), keeps the invariant, leaves the obstacle grid and
  its dimensions as they were and keeps the number of humans and zombies.
\<close>

theorem run_sim_ok:
  assumes "sim_ok s"
  shows "\<exists>s'. run n s = Inr s' \<and> sim_ok s' \<and> cells s' = cells s \<and>
           grid_height s' = grid_height s \<and> grid_width s' = grid_width s \<and>
           num_humans s' = num_humans s \<and> num_zombies s' = num_zombies s"
  using assms
proof (induction n arbitrary: s)
  case 0
  then show ?case by simp
next
  case (Suc n)
  from tick_ok [OF Suc.prems] obtain s1 where s1: "tick s = Inr s1" "sim_ok s1" "cells s1 = cells s"
    "grid_height s1 = grid_height s" "grid_width s1 = grid_width s"
    "num_humans s1 = num_humans s" "num_zombies s1 = num_zombies s" by blast
  from Suc.IH [OF s1(2)] s1 show ?case by auto
qed

end
