(* ===== verification/Merge.thy ===== *)
theory Merge
  imports Prelude
begin

text \<open>
  The 2048 line merge of \<open>src/merge.py\<close>. \<open>slide_list\<close> moves the non-zero
  tiles to the front; \<open>merge\<close> slides, then walks the slid line with an index,
  appending one tile per step, a doubled tile and a \<open>0\<close> for an equal pair, and
  both tiles of an unequal last pair (the last one is then appended again by
  the next step, which is why the code drops one tile when the result has
  grown). Tiles are Python integers. The loop is proved to terminate, and
  \<open>merge\<close> is proved equal to the textbook merge \<open>merge_spec\<close>: compress the
  non-zero tiles, merge equal neighbours pairwise from the front, pad with
  zeros.
\<close>

definition slide_list :: "int list \<Rightarrow> int list" where
  "slide_list line =
     (let slided = filter (\<lambda>num. num \<noteq> 0) line
      in if length slided \<noteq> length line
         then slided @ replicate (length line - length slided) 0
         else slided)"

text \<open>
  Lines 29-42: \<open>while index <= len(slided) - 1\<close>. The bounds are compared as
  Python integers, so that \<open>len(slided) - 1\<close> is \<open>-1\<close> on an empty line.
\<close>

function merge_loop :: "int list \<Rightarrow> nat \<Rightarrow> int list \<Rightarrow> int list" where
  "merge_loop slided index result =
     (if int index \<le> int (length slided) - 1 then
        (if int index = int (length slided) - 1 then
           merge_loop slided (index + 1) (result @ [slided ! index])
         else if slided ! index \<noteq> slided ! (index + 1) then
           (if int index = int (length slided) - 2 then
              merge_loop slided (index + 1) (result @ [slided ! index] @ [slided ! (index + 1)])
            else merge_loop slided (index + 1) (result @ [slided ! index]))
         else merge_loop slided (index + 2) (result @ ([slided ! index * 2] @ [0])))
      else result)"
  by pat_completeness auto

termination merge_loop
  by (relation "measure (\<lambda>(slided, index, result). length slided - index)") auto

declare merge_loop.simps [simp del]

text \<open>Lines 21-47; \<open>result[:-1]\<close> is \<open>butlast\<close>.\<close>

definition merge :: "int list \<Rightarrow> int list" where
  "merge line =
     (let slided = slide_list line;
          result = merge_loop slided 0 []
      in if length result > length slided then slide_list (butlast result) else slide_list result)"

text \<open>Lines 50-58: the assertions in order, the first that fails raising; the \<open>print\<close> is left out.\<close>

definition run_tests_merge :: "unit result" where
  "run_tests_merge =
     err_bind (map_err py_assert
       [merge [2, 0, 2, 2] = [4, 2, 0, 0], merge [2, 0, 2, 4] = [4, 4, 0, 0],
        merge [0, 0, 2, 2] = [4, 0, 0, 0], merge [2, 2, 0, 0] = [4, 0, 0, 0],
        merge [2, 2, 2, 2, 2] = [4, 4, 2, 0, 0], merge [8, 16, 16, 8] = [8, 32, 8, 0]])
       (\<lambda>_. Inr ())"

subsection \<open>Reference definitions\<close>

text \<open>The textbook merge: equal neighbours of the compressed line merge once, from the front.\<close>

fun pair_merge :: "int list \<Rightarrow> int list" where
  "pair_merge (x # y # xs) = (if x = y then 2 * x # pair_merge xs else x # pair_merge (y # xs))"
| "pair_merge xs = xs"

definition merge_spec :: "int list \<Rightarrow> int list" where
  "merge_spec line =
     (let m = pair_merge (filter (\<lambda>x. x \<noteq> 0) line) in m @ replicate (length line - length m) 0)"

text \<open>
  What the loop appends for the part of the line from the index on, and the
  same walk without the repeated last tile (a merged pair leaves a \<open>0\<close>).
\<close>

fun loop_out :: "int list \<Rightarrow> int list" where
  "loop_out [] = []"
| "loop_out [x] = [x]"
| "loop_out [x, y] = (if x \<noteq> y then [x, y, y] else [x * 2, 0])"
| "loop_out (x # y # z # zs) = (if x \<noteq> y then x # loop_out (y # z # zs) else [x * 2, 0] @ loop_out (z # zs))"

fun pm :: "int list \<Rightarrow> int list" where
  "pm (x # y # xs) = (if x = y then x * 2 # 0 # pm xs else x # pm (y # xs))"
| "pm xs = xs"

subsection \<open>Sliding\<close>

lemma slide_list_eq:
  "slide_list xs = filter (\<lambda>x. x \<noteq> 0) xs @ replicate (length xs - length (filter (\<lambda>x. x \<noteq> 0) xs)) 0"
  by (simp add: slide_list_def Let_def)

lemma length_slide_list [simp]: "length (slide_list xs) = length xs"
  by (simp add: slide_list_eq)

lemma sum_list_filter_nonzero: "sum_list (filter (\<lambda>x. x \<noteq> (0::int)) xs) = sum_list xs"
  by (induction xs) auto

lemma sum_slide_list [simp]: "sum_list (slide_list xs) = sum_list xs"
  by (simp add: slide_list_eq sum_list_filter_nonzero sum_list_replicate)

lemma filter_slide_list [simp]:
  "filter (\<lambda>x. x \<noteq> 0) (slide_list xs) = filter (\<lambda>x. x \<noteq> 0) xs"
  by (simp add: slide_list_eq filter_replicate)

subsection \<open>The loop walks the suffix from the index\<close>

lemma drop_Cons_nth:
  assumes "drop i xs = x # ys"
  shows "i < length xs \<and> xs ! i = x \<and> drop (Suc i) xs = ys"
proof -
  have i: "i < length xs" using assms by (cases "i < length xs") auto
  from Cons_nth_drop_Suc [OF i] assms show ?thesis using i by simp
qed

lemma merge_loop_end: "length xs \<le> i \<Longrightarrow> merge_loop xs i r = r"
  by (subst merge_loop.simps) simp

lemma merge_loop_last: "drop i xs = [x] \<Longrightarrow> merge_loop xs i r = r @ [x]"
proof -
  assume d: "drop i xs = [x]"
  from drop_Cons_nth [OF d] have i: "i < length xs" "xs ! i = x" "drop (Suc i) xs = []" by simp_all
  from arg_cong [where f = length, OF d] have "length xs - i = 1" by simp
  with i(1) have l: "length xs = Suc i" by simp
  show ?thesis using i l by (subst merge_loop.simps) (simp add: merge_loop_end)
qed

lemma merge_loop_drop: "drop i xs = ys \<Longrightarrow> merge_loop xs i r = r @ loop_out ys"
proof (induction ys arbitrary: i r rule: loop_out.induct)
  case 1
  then show ?case by (simp add: merge_loop_end)
next
  case (2 x)
  then show ?case by (simp add: merge_loop_last)
next
  case (3 x y)
  from drop_Cons_nth [OF "3"] have a: "i < length xs" "xs ! i = x" "drop (Suc i) xs = [y]" by simp_all
  from drop_Cons_nth [OF a(3)] have b: "xs ! Suc i = y" by simp
  from arg_cong [where f = length, OF "3"] have "length xs - i = 2" by simp
  with a(1) have l: "length xs = i + 2" by simp
  show ?case
  proof (cases "x = y")
    case True
    then show ?thesis using a b l by (subst merge_loop.simps) (simp add: merge_loop_end)
  next
    case False
    then show ?thesis using a b l by (subst merge_loop.simps) (simp add: merge_loop_last)
  qed
next
  case (4 x y z zs)
  from drop_Cons_nth [OF "4.prems"] have a: "i < length xs" "xs ! i = x" "drop (Suc i) xs = y # z # zs" by simp_all
  from drop_Cons_nth [OF a(3)] have b: "xs ! Suc i = y" "drop (Suc (Suc i)) xs = z # zs" by simp_all
  from arg_cong [where f = length, OF "4.prems"] have "length xs - i = 3 + length zs" by simp
  with a(1) have l: "length xs = i + 3 + length zs" by simp
  show ?case
  proof (cases "x = y")
    case True
    with "4.IH"(2) [OF _ b(2)] a b l show ?thesis by (subst merge_loop.simps) simp
  next
    case False
    with "4.IH"(1) [OF _ a(3)] a b l show ?thesis by (subst merge_loop.simps) simp
  qed
qed

subsection \<open>The walk against the reference\<close>

lemma loop_out_pm: "\<exists>e. length e \<le> 1 \<and> loop_out ys = pm ys @ e"
  by (induction ys rule: loop_out.induct) auto

lemma length_pm [simp]: "length (pm xs) = length xs"
  by (induction xs rule: pm.induct) auto

lemma sum_pm [simp]: "sum_list (pm xs) = sum_list xs"
  by (induction xs rule: pm.induct) auto

lemma pm_zeros: "\<forall>x \<in> set xs. x = 0 \<Longrightarrow> pm xs = xs"
  by (induction xs rule: pm.induct) auto

lemma pm_single_zeros: "x \<noteq> 0 \<Longrightarrow> \<forall>z \<in> set zs. z = 0 \<Longrightarrow> pm (x # zs) = x # zs"
  by (cases zs) (auto simp: pm_zeros)

lemma filter_pm:
  "\<forall>x \<in> set nz. x \<noteq> 0 \<Longrightarrow> filter (\<lambda>x. x \<noteq> 0) (pm (nz @ replicate k 0)) = pair_merge nz"
  by (induction nz rule: pair_merge.induct) (auto simp: pm_zeros pm_single_zeros filter_replicate)

text \<open>The loop's result, less the repeated tile when there is one, is \<open>pm\<close> of the slid line.\<close>

lemma merge_pm: "merge line = slide_list (pm (slide_list line))"
proof -
  let ?sl = "slide_list line"
  have r: "merge_loop ?sl 0 [] = loop_out ?sl" by (simp add: merge_loop_drop)
  obtain e where e: "length e \<le> 1" "loop_out ?sl = pm ?sl @ e" using loop_out_pm by blast
  have "(if length (loop_out ?sl) > length ?sl then butlast (loop_out ?sl) else loop_out ?sl) = pm ?sl"
  proof (cases e)
    case Nil
    then show ?thesis using e by simp
  next
    case (Cons a e')
    with e have "e = [a]" by simp
    then show ?thesis using e by (simp add: butlast_append)
  qed
  then show ?thesis by (auto simp: merge_def r Let_def split: if_splits)
qed

lemma slide_list_idem: "slide_list (slide_list xs) = slide_list xs"
  by (simp add: slide_list_eq [of "slide_list xs"]) (simp add: slide_list_eq)

subsection \<open>Properties of merge\<close>

text \<open>
  C12. \<open>merge\<close> is the textbook 2048 merge: the non-zero tiles, with equal
  neighbours merged pairwise from the front (each tile at most once), padded
  with zeros to the line's length.
\<close>

theorem merge_equiv: "merge line = merge_spec line"
proof -
  let ?nz = "filter (\<lambda>x. x \<noteq> 0) line"
  let ?k = "length line - length ?nz"
  have sl: "slide_list line = ?nz @ replicate ?k 0" by (simp add: slide_list_eq)
  have f: "filter (\<lambda>x. x \<noteq> 0) (pm (?nz @ replicate ?k 0)) = pair_merge ?nz"
    by (rule filter_pm) simp
  have "length (pm (?nz @ replicate ?k 0)) = length line" using sl length_slide_list [of line] by simp
  with f show ?thesis
    by (simp add: merge_pm sl slide_list_eq [of "pm (?nz @ replicate ?k 0)"] merge_spec_def Let_def)
qed

text \<open>A merged line has the length of the line.\<close>

theorem merge_length: "length (merge line) = length line"
  by (simp add: merge_pm)

text \<open>C13. Merging keeps the sum of the tiles: a merged pair \<open>x, x\<close> becomes \<open>2x\<close> and \<open>0\<close>.\<close>

theorem merge_sum: "sum_list (merge line) = sum_list line"
  by (simp add: merge_pm)

text \<open>The merged line is slid: its non-zero tiles come first.\<close>

theorem merge_slid: "slide_list (merge line) = merge line"
  by (simp add: merge_pm slide_list_idem)

text \<open>
  The index loop's result is at most one tile longer than the slid line,
  so that \<open>result[:-1]\<close> in line 45 drops exactly the tile the last unequal
  pair appended twice; it is never shorter.
\<close>

theorem merge_loop_length:
  "length (slide_list line) \<le> length (merge_loop (slide_list line) 0 []) \<and>
   length (merge_loop (slide_list line) 0 []) \<le> length (slide_list line) + 1"
proof -
  obtain e where e: "length e \<le> 1" "loop_out (slide_list line) = pm (slide_list line) @ e"
    using loop_out_pm by blast
  have "merge_loop (slide_list line) 0 [] = loop_out (slide_list line)" by (simp add: merge_loop_drop)
  with e show ?thesis by simp
qed

text \<open>The assertions of \<open>run_tests\<close> (lines 50-56) hold, so it returns normally.\<close>

theorem merge_run_tests:
  "merge [2, 0, 2, 2] = [4, 2, 0, 0] \<and> merge [2, 0, 2, 4] = [4, 4, 0, 0] \<and>
   merge [0, 0, 2, 2] = [4, 0, 0, 0] \<and> merge [2, 2, 0, 0] = [4, 0, 0, 0] \<and>
   merge [2, 2, 2, 2, 2] = [4, 4, 2, 0, 0] \<and> merge [8, 16, 16, 8] = [8, 32, 8, 0]"
  by code_simp

theorem run_tests_merge_pass: "run_tests_merge = Inr ()"
  using merge_run_tests by (simp add: run_tests_merge_def py_assert_def)

end
