(* ===== verification/Yahtzee.thy ===== *)
theory Yahtzee
  imports Prelude Complex_Main "HOL-Library.List_Lexorder" "HOL-Library.Sublist"
begin

text \<open>
  The Yahtzee planner of \<open>src/yahtzee.py\<close>, with its test data from
  \<open>src/holds_testsuite.py\<close>. Dice are Python integers; Python's floats are
  rationals here (the code divides one integer sum by one count, which a
  rational represents exactly). A Python set of tuples is a set of lists; a
  loop over a set visits its elements in the model in increasing
  lexicographic order (Python's order is the hash order, which the code does
  not rely on except to break ties in \<open>strategy\<close>). \<open>combinations\<close> is a
  generator whose \<open>while True\<close> loop ends only because the index vector
  moves forward lexicographically; it is a \<open>partial_function\<close> in the option
  monad (\<open>None\<close>: the loop does not end), and it is proved to end.
\<close>

text \<open>Lines 9-24: the state after \<open>length\<close> passes of the \<open>for dummy_idx\<close> loop.\<close>

primrec gen_all_sequences :: "'a list \<Rightarrow> nat \<Rightarrow> 'a list set" where
  "gen_all_sequences outcomes 0 = {[]}"
| "gen_all_sequences outcomes (Suc n) =
     (\<Union>partial_sequence \<in> gen_all_sequences outcomes n.
        (\<lambda>item. partial_sequence @ [item]) ` set outcomes)"

text \<open>Lines 28-37: \<open>max\<close> of an empty list raises \<open>ValueError\<close>.\<close>

definition score :: "int list \<Rightarrow> int result" where
  "score hand =
     (let scores = map (\<lambda>num. int (count_list hand num) * num) hand
      in if scores = [] then Inl ValueError else Inr (Max (set scores)))"

text \<open>
  Lines 40-54. \<open>range(1, num_die_sides + 1)\<close> is \<open>[1..num_die_sides]\<close>; the
  division by the number of hands raises \<open>ZeroDivisionError\<close> when there is
  none.
\<close>

definition expected_value :: "int list \<Rightarrow> int \<Rightarrow> nat \<Rightarrow> rat result" where
  "expected_value held_dice num_die_sides num_free_dice =
     (let all_poss_hands = map (\<lambda>hand. held_dice @ hand)
            (sorted_list_of_set (gen_all_sequences [1..num_die_sides] num_free_dice))
      in err_bind (map_err score all_poss_hands) (\<lambda>all_poss_scores.
           if length all_poss_scores = 0 then Inl ZeroDivisionError
           else Inr (of_int (sum_list all_poss_scores) / of_nat (length all_poss_scores))))"

text \<open>
  Lines 58-76. \<open>comb_find\<close> is the \<open>for i in reversed(range(r))\<close> search
  (\<open>None\<close>: the \<open>else: return\<close> branch), \<open>comb_next\<close> the update of the
  indices, \<open>comb_loop\<close> the \<open>while True\<close> loop returning what it yields.
\<close>

definition comb_find :: "nat list \<Rightarrow> nat \<Rightarrow> nat \<Rightarrow> nat option" where
  "comb_find indices n r = find (\<lambda>i. indices ! i \<noteq> i + n - r) (rev [0..<r])"

definition comb_next :: "nat list \<Rightarrow> nat \<Rightarrow> nat \<Rightarrow> nat list" where
  "comb_next indices i r =
     fold (\<lambda>j idx. idx[j := idx ! (j - 1) + 1]) [Suc i..<r] (indices[i := indices ! i + 1])"

partial_function (option) comb_loop :: "'a list \<Rightarrow> nat \<Rightarrow> nat \<Rightarrow> nat list \<Rightarrow> 'a list list option" where
  "comb_loop pool n r indices =
     (case comb_find indices n r of
        None \<Rightarrow> Some []
      | Some i \<Rightarrow>
          (let indices' = comb_next indices i r
           in Option.bind (comb_loop pool n r indices')
                (\<lambda>rest. Some (map (\<lambda>i. pool ! i) indices' # rest))))"

definition combinations :: "'a list \<Rightarrow> nat \<Rightarrow> 'a list list option" where
  "combinations iterable r =
     (let pool = iterable; n = length pool
      in if r > n then Some []
         else (let indices = [0..<r]
               in Option.bind (comb_loop pool n r indices)
                    (\<lambda>rest. Some (map (\<lambda>i. pool ! i) indices # rest))))"

text \<open>Lines 78-91: the subsets of every size, collected into a set.\<close>

fun collect_subsets :: "'a list \<Rightarrow> nat list \<Rightarrow> 'a list list option" where
  "collect_subsets hand [] = Some []"
| "collect_subsets hand (dummy_i # is) =
     Option.bind (combinations hand dummy_i) (\<lambda>subsets.
       Option.bind (collect_subsets hand is) (\<lambda>rest. Some (subsets @ rest)))"

definition gen_all_holds :: "'a list \<Rightarrow> 'a list set option" where
  "gen_all_holds hand = map_option set (collect_subsets hand [0..<length hand + 1])"

text \<open>
  Lines 94-116: the first hold (in the loop's order) with the strictly
  greatest expected value above \<open>0\<close>.
\<close>

fun strategy_loop ::
  "int list \<Rightarrow> int \<Rightarrow> rat \<times> int list option \<Rightarrow> int list list \<Rightarrow> (rat \<times> int list option) result" where
  "strategy_loop hand num_die_sides acc [] = Inr acc"
| "strategy_loop hand num_die_sides (max_expected, to_hold) (hold # holds) =
     err_bind (expected_value hold num_die_sides (length hand - length hold)) (\<lambda>expected_val.
       if expected_val > max_expected
       then strategy_loop hand num_die_sides (expected_val, Some hold) holds
       else strategy_loop hand num_die_sides (max_expected, to_hold) holds)"

definition strategy :: "int list \<Rightarrow> int \<Rightarrow> (rat \<times> int list option) result option" where
  "strategy hand num_die_sides =
     map_option (\<lambda>all_holds. strategy_loop hand num_die_sides (0, None) (sorted_list_of_set all_holds))
       (gen_all_holds hand)"

text \<open>The cases of \<open>holds_testsuite.run_suite\<close> (lines 16-29): a hand and the expected holds.\<close>

definition holds_suite :: "(int list \<times> int list set) list" where
  "holds_suite =
     [([], {[]}),
      ([2, 4], {[], [2], [4], [2, 4]}),
      ([3, 3, 3], {[], [3], [3, 3], [3, 3, 3]}),
      ([1, 2, 2], {[], [1], [2], [1, 2], [2, 2], [1, 2, 2]}),
      ([2, 3, 6], {[], [2], [3], [6], [2, 3], [2, 6], [3, 6], [2, 3, 6]})]"

text \<open>The score cases of \<open>run_test_suite\<close> (lines 137-146): a hand and its expected score.\<close>

definition score_suite :: "(int list \<times> int) list" where
  "score_suite =
     [([1, 1, 1, 1, 1], 5), ([5, 5, 5, 5, 5], 25), ([1, 1, 6, 1, 1], 6), ([1, 1, 5, 1, 1], 5),
      ([1, 1, 4, 1, 1], 4), ([1, 1, 3, 3, 1], 6), ([1, 1, 6, 1, 6], 12), ([1, 5, 3, 1, 2], 5),
      ([1, 1, 1, 2, 2], 4), ([5, 5, 6, 6, 1], 12)]"

text \<open>The upper-section score the code computes: the best face count times the face.\<close>

definition upper_score :: "int list \<Rightarrow> int" where
  "upper_score hand = Max ((\<lambda>num. int (count_list hand num) * num) ` set hand)"

text \<open>
  The index vectors of \<open>combinations\<close>: strictly increasing, of length
  \<open>r\<close>, each entry at most its largest value \<open>k + n - r\<close>; and the
  distance of each entry to that value, which decreases lexicographically.
\<close>

definition comb_inv :: "nat \<Rightarrow> nat \<Rightarrow> nat list \<Rightarrow> bool" where
  "comb_inv n r indices \<longleftrightarrow>
     r \<le> n \<and> length indices = r \<and> sorted_wrt (<) indices \<and> (\<forall>k < r. indices ! k \<le> k + n - r)"

definition comb_gap :: "nat \<Rightarrow> nat \<Rightarrow> nat list \<Rightarrow> nat list" where
  "comb_gap n r indices = map (\<lambda>k. k + n - r - indices ! k) [0..<r]"

text \<open>Lexicographic order on index vectors of one length: the first difference decides.\<close>

definition lex_less :: "nat list \<Rightarrow> nat list \<Rightarrow> bool" where
  "lex_less xs ys \<longleftrightarrow> (\<exists>p < length xs. take p xs = take p ys \<and> xs ! p < ys ! p)"

declare comb_loop.simps [code]

subsection \<open>Sequences of outcomes\<close>

lemma gen_all_sequences_eq:
  "gen_all_sequences outcomes n = {seq. length seq = n \<and> set seq \<subseteq> set outcomes}"
proof (induction n)
  case 0
  then show ?case by auto
next
  case (Suc n)
  show ?case
  proof (intro set_eqI iffI)
    fix seq
    assume "seq \<in> gen_all_sequences outcomes (Suc n)"
    then show "seq \<in> {seq. length seq = Suc n \<and> set seq \<subseteq> set outcomes}" using Suc by auto
  next
    fix seq
    assume a: "seq \<in> {seq. length seq = Suc n \<and> set seq \<subseteq> set outcomes}"
    then obtain ys y where seq: "seq = ys @ [y]" by (cases seq rule: rev_cases) auto
    with a Suc show "seq \<in> gen_all_sequences outcomes (Suc n)" by auto
  qed
qed

lemma finite_gen_all_sequences [simp]: "finite (gen_all_sequences outcomes n)"
  by (induction n) auto

lemma length_in_gen_all_sequences: "s \<in> gen_all_sequences outcomes n \<Longrightarrow> length s = n"
  by (simp add: gen_all_sequences_eq)

subsection \<open>Scores\<close>

lemma score_Nil: "score [] = Inl ValueError"
  by (simp add: score_def)

lemma score_eq: "hand \<noteq> [] \<Longrightarrow> score hand = Inr (upper_score hand)"
  by (simp add: score_def upper_score_def image_image)

lemma upper_score_ge: "x \<in> set hand \<Longrightarrow> int (count_list hand x) * x \<le> upper_score hand"
  by (simp add: upper_score_def)

lemma upper_score_attained: "hand \<noteq> [] \<Longrightarrow> \<exists>x \<in> set hand. upper_score hand = int (count_list hand x) * x"
proof -
  assume "hand \<noteq> []"
  then have "(\<lambda>num. int (count_list hand num) * num) ` set hand \<noteq> {}" by simp
  from Max_in [OF _ this] show ?thesis by (auto simp: upper_score_def)
qed

lemma upper_score_pos: "hand \<noteq> [] \<Longrightarrow> \<forall>x \<in> set hand. 0 < x \<Longrightarrow> 0 < upper_score hand"
proof -
  assume h: "hand \<noteq> []" and p: "\<forall>x \<in> set hand. 0 < x"
  from h obtain x where x: "x \<in> set hand" by (cases hand) auto
  then have "0 < count_list hand x" using count_list_0_iff [of hand x] by linarith
  with x p have "0 < int (count_list hand x) * x" by simp
  with upper_score_ge [OF x] show ?thesis by linarith
qed


subsection \<open>Expected values\<close>

lemma card_gen_all_sequences_upto:
  "card (gen_all_sequences [1..sides] n) = nat sides ^ n"
proof -
  have "gen_all_sequences [1..sides] n = {xs. set xs \<subseteq> {1..sides} \<and> length xs = n}"
    by (auto simp: gen_all_sequences_eq)
  then show ?thesis by (simp add: card_lists_length_eq)
qed

lemma length_rolls:
  "length (sorted_list_of_set (gen_all_sequences [1..sides] n)) = nat sides ^ n"
  by (simp add: card_gen_all_sequences_upto)

lemma scores_of_rolls:
  assumes "held \<noteq> [] \<or> 0 < free"
  shows "map_err score (map (\<lambda>hand. held @ hand) (sorted_list_of_set (gen_all_sequences outcomes free))) =
           Inr (map (\<lambda>s. upper_score (held @ s)) (sorted_list_of_set (gen_all_sequences outcomes free)))"
proof -
  have "\<forall>h \<in> set (map (\<lambda>hand. held @ hand) (sorted_list_of_set (gen_all_sequences outcomes free))).
          score h = Inr (upper_score h)"
    using assms by (auto simp: score_eq dest: length_in_gen_all_sequences)
  from map_err_all_Inr [OF this] show ?thesis by simp
qed

lemma expected_value_unfold:
  assumes "held_dice \<noteq> [] \<or> 0 < num_free_dice"
  shows "expected_value held_dice num_die_sides num_free_dice =
           (if nat num_die_sides ^ num_free_dice = 0 then Inl ZeroDivisionError
            else Inr (of_int (\<Sum>s \<in> gen_all_sequences [1..num_die_sides] num_free_dice.
                                upper_score (held_dice @ s)) /
                      of_nat (nat num_die_sides ^ num_free_dice)))"
proof -
  let ?S = "gen_all_sequences [1..num_die_sides] num_free_dice"
  have sum: "sum_list (map (\<lambda>s. upper_score (held_dice @ s)) (sorted_list_of_set ?S)) =
               (\<Sum>s \<in> ?S. upper_score (held_dice @ s))"
    by (simp add: sum_list_distinct_conv_sum_set)
  show ?thesis
    unfolding expected_value_def Let_def scores_of_rolls [OF assms] err_bind.simps length_map length_rolls sum ..
qed

text \<open>
  C14. With at least one side per die and at least one die in each hand,
  \<open>expected_value\<close> is the mean of the upper-section score of the held dice
  followed by each of the \<open>sides ^ free\<close> equally likely rolls.
\<close>

theorem expected_value_mean:
  assumes "1 \<le> num_die_sides" "held_dice \<noteq> [] \<or> 0 < num_free_dice"
  shows "expected_value held_dice num_die_sides num_free_dice =
           Inr (of_int (\<Sum>s \<in> gen_all_sequences [1..num_die_sides] num_free_dice. upper_score (held_dice @ s)) /
                of_nat (nat num_die_sides ^ num_free_dice))"
  using expected_value_unfold [OF assms(2)] assms(1) by simp

text \<open>
  C15. \<open>expected_value\<close> raises exactly in two cases: \<open>ValueError\<close> when
  there is no die at all (\<open>max\<close> of an empty list in \<open>score\<close>), and
  \<open>ZeroDivisionError\<close> when dice are to be rolled but a die has no side (no
  hand at all).
\<close>

theorem expected_value_error:
  "expected_value held_dice num_die_sides num_free_dice = Inl e \<longleftrightarrow>
     (held_dice = [] \<and> num_free_dice = 0 \<and> e = ValueError) \<or>
     (num_die_sides < 1 \<and> 0 < num_free_dice \<and> e = ZeroDivisionError)"
proof (cases "held_dice = [] \<and> num_free_dice = 0")
  case True
  then show ?thesis by (auto simp: expected_value_def score_Nil)
next
  case False
  then have h: "held_dice \<noteq> [] \<or> 0 < num_free_dice" by auto
  have "nat num_die_sides ^ num_free_dice = 0 \<longleftrightarrow> num_die_sides < 1 \<and> 0 < num_free_dice"
    by auto
  with expected_value_unfold [OF h] False show ?thesis by auto
qed

subsection \<open>The generator of combinations\<close>

lemma find_rev_upt_Some:
  "find P (rev [0..<m]) = Some i \<Longrightarrow> i < m \<and> P i \<and> (\<forall>k. i < k \<and> k < m \<longrightarrow> \<not> P k)"
proof (induction m)
  case 0
  then show ?case by simp
next
  case (Suc m)
  then show ?case by (cases "P m") (auto simp: less_Suc_eq)
qed

lemma find_rev_upt_None: "find P (rev [0..<m]) = None \<Longrightarrow> \<forall>k < m. \<not> P k"
  by (induction m) (auto simp: less_Suc_eq split: if_splits)

lemma comb_fold_nth:
  assumes "i < r" "length indices = r" "Suc i \<le> m" "m \<le> r"
  shows "length (fold (\<lambda>j idx. idx[j := idx ! (j - 1) + 1]) [Suc i..<m] (indices[i := indices ! i + 1])) = r \<and>
         (\<forall>k < r. fold (\<lambda>j idx. idx[j := idx ! (j - 1) + 1]) [Suc i..<m] (indices[i := indices ! i + 1]) ! k =
            (if i \<le> k \<and> k < m then indices ! i + 1 + (k - i) else indices ! k))"
  using assms(3,4)
proof (induction m rule: dec_induct)
  case base
  then show ?case using assms(1,2) by (auto simp: nth_list_update)
next
  case (step m)
  then show ?case using assms(1,2) by (auto simp: nth_list_update)
qed

lemma comb_next_nth:
  assumes "i < r" "length indices = r"
  shows "length (comb_next indices i r) = r \<and>
         (\<forall>k < r. comb_next indices i r ! k = (if i \<le> k then indices ! i + 1 + (k - i) else indices ! k))"
  using comb_fold_nth [OF assms, of r] assms(1) by (simp add: comb_next_def)

lemma comb_find_Some:
  "comb_find indices n r = Some i \<Longrightarrow>
   i < r \<and> indices ! i \<noteq> i + n - r \<and> (\<forall>k. i < k \<and> k < r \<longrightarrow> indices ! k = k + n - r)"
  unfolding comb_find_def by (drule find_rev_upt_Some) auto

lemma comb_inv_next:
  assumes inv: "comb_inv n r indices" and f: "comb_find indices n r = Some i"
  shows "comb_inv n r (comb_next indices i r)"
proof -
  from inv have len: "length indices = r" and srt: "sorted_wrt (<) indices" and rn: "r \<le> n"
    and bnd: "\<forall>k < r. indices ! k \<le> k + n - r" by (simp_all add: comb_inv_def)
  from comb_find_Some [OF f] have i: "i < r" "indices ! i \<noteq> i + n - r" by simp_all
  with bnd have lt: "indices ! i < i + n - r" by (simp add: le_neq_implies_less)
  note nx = comb_next_nth [OF i(1) len]
  have "sorted_wrt (<) (comb_next indices i r)"
  proof (unfold sorted_wrt_iff_nth_less, intro allI impI)
    fix a b
    assume ab: "a < b" "b < length (comb_next indices i r)"
    from srt len have s: "\<And>a b. a < b \<Longrightarrow> b < r \<Longrightarrow> indices ! a < indices ! b"
      by (simp add: sorted_wrt_iff_nth_less)
    show "comb_next indices i r ! a < comb_next indices i r ! b"
    proof (cases "i \<le> a")
      case True
      then show ?thesis using ab nx by auto
    next
      case False
      with ab nx s [of a i] s [of a b] i(1) show ?thesis by (cases "i \<le> b") auto
    qed
  qed
  moreover have "\<forall>k < r. comb_next indices i r ! k \<le> k + n - r"
    using nx bnd lt by auto
  ultimately show ?thesis using nx rn by (simp add: comb_inv_def)
qed

lemma comb_gap_lex:
  assumes inv: "comb_inv n r indices" and f: "comb_find indices n r = Some i"
  shows "(comb_gap n r (comb_next indices i r), comb_gap n r indices) \<in> lex less_than"
proof -
  from inv have len: "length indices = r" and bnd: "\<forall>k < r. indices ! k \<le> k + n - r"
    by (simp_all add: comb_inv_def)
  from comb_find_Some [OF f] have i: "i < r" "indices ! i \<noteq> i + n - r" by simp_all
  with bnd have lt: "indices ! i < i + n - r" by (simp add: le_neq_implies_less)
  note nx = comb_next_nth [OF i(1) len]
  let ?g' = "comb_gap n r (comb_next indices i r)" and ?g = "comb_gap n r indices"
  have l: "length ?g' = r" "length ?g = r" by (simp_all add: comb_gap_def)
  have tk: "take i ?g' = take i ?g"
    by (rule nth_equalityI) (use i(1) nx in \<open>auto simp: comb_gap_def\<close>)
  have at: "(?g' ! i, ?g ! i) \<in> less_than" using i(1) nx lt by (simp add: comb_gap_def)
  have "?g' = take i ?g @ ?g' ! i # drop (Suc i) ?g'" using tk id_take_nth_drop [of i ?g'] l i(1) by simp
  moreover have "?g = take i ?g @ ?g ! i # drop (Suc i) ?g" using id_take_nth_drop [of i ?g] l i(1) by simp
  ultimately have "\<exists>xys x y xs' ys'. ?g' = xys @ x # xs' \<and> ?g = xys @ y # ys' \<and> (x, y) \<in> less_than"
    using at by (intro exI conjI)
  with l show ?thesis by (simp add: lex_conv)
qed

lemma comb_loop_ok:
  assumes "comb_inv n r indices"
  shows "\<exists>ys. comb_loop pool n r indices = Some ys \<and>
           (\<forall>y \<in> set ys. \<exists>idx. comb_inv n r idx \<and> y = map (\<lambda>i. pool ! i) idx)"
  using assms
proof (induction indices rule: wf_induct_rule [OF wf_inv_image [OF wf_lex [OF wf_less_than]], of "comb_gap n r"])
  case (1 x)
  show ?case
  proof (cases "comb_find x n r")
    case None
    then show ?thesis by (subst comb_loop.simps) simp
  next
    case (Some i)
    let ?x' = "comb_next x i r"
    have inv': "comb_inv n r ?x'" by (rule comb_inv_next [OF "1.prems" Some])
    have "(?x', x) \<in> inv_image (lex less_than) (comb_gap n r)"
      using comb_gap_lex [OF "1.prems" Some] by simp
    from "1.IH" [OF this inv'] obtain ys where
      ys: "comb_loop pool n r ?x' = Some ys" "\<forall>y \<in> set ys. \<exists>idx. comb_inv n r idx \<and> y = map (\<lambda>i. pool ! i) idx"
      by blast
    have "comb_loop pool n r x = Some (map (\<lambda>i. pool ! i) ?x' # ys)"
      by (subst comb_loop.simps) (simp add: Some ys(1) Let_def)
    then show ?thesis using ys(2) inv' by auto
  qed
qed

subsection \<open>The generator visits every index vector\<close>

lemma lex_less_Cons: "lex_less xs ys \<Longrightarrow> lex_less (x # xs) (x # ys)"
proof -
  assume "lex_less xs ys"
  then obtain p where "p < length xs" "take p xs = take p ys" "xs ! p < ys ! p" by (auto simp: lex_less_def)
  then show ?thesis unfolding lex_less_def by (intro exI [of _ "Suc p"]) simp
qed

lemma pointwise_le_lex:
  "length xs = length ys \<Longrightarrow> \<forall>k < length xs. xs ! k \<le> ys ! k \<Longrightarrow> xs = ys \<or> lex_less xs ys"
proof (induction xs ys rule: list_induct2)
  case Nil
  then show ?case by simp
next
  case (Cons x xs y ys)
  from Cons.prems have xy: "x \<le> y" and le: "\<forall>k < length xs. xs ! k \<le> ys ! k" by (auto dest: spec [of _ 0] spec [of _ "Suc _"])
  show ?case
  proof (cases "x < y")
    case True
    then show ?thesis unfolding lex_less_def by (intro disjI2 exI [of _ 0]) simp
  next
    case False
    with xy have "x = y" by simp
    with Cons.IH [OF le] show ?thesis using lex_less_Cons by auto
  qed
qed

lemma sorted_wrt_less_add:
  "sorted_wrt (<) (xs :: nat list) \<Longrightarrow> i \<le> k \<Longrightarrow> k < length xs \<Longrightarrow> xs ! i + (k - i) \<le> xs ! k"
proof (induction k)
  case 0
  then show ?case by simp
next
  case (Suc k)
  show ?case
  proof (cases "i \<le> k")
    case True
    with Suc have "xs ! i + (k - i) \<le> xs ! k" by simp
    moreover have "xs ! k < xs ! Suc k" using Suc.prems by (simp add: sorted_wrt_iff_nth_less)
    ultimately show ?thesis using True by simp
  next
    case False
    with Suc.prems show ?thesis by (simp add: le_Suc_eq)
  qed
qed

lemma comb_next_succ:
  assumes inv: "comb_inv n r indices" and f: "comb_find indices n r = Some i"
    and inv2: "comb_inv n r other" and lt: "lex_less indices other"
  shows "other = comb_next indices i r \<or> lex_less (comb_next indices i r) other"
proof -
  from inv have len: "length indices = r" by (simp add: comb_inv_def)
  from inv2 have len2: "length other = r" and srt2: "sorted_wrt (<) other"
    and bnd2: "\<forall>k < r. other ! k \<le> k + n - r" by (simp_all add: comb_inv_def)
  from comb_find_Some [OF f] have i: "i < r" and top: "\<forall>k. i < k \<and> k < r \<longrightarrow> indices ! k = k + n - r"
    by simp_all
  note nx = comb_next_nth [OF i len]
  let ?x = "comb_next indices i r"
  from lt obtain p where p: "p < r" "take p indices = take p other" "indices ! p < other ! p"
    using len by (auto simp: lex_less_def)
  have eqbelow: "\<forall>k < p. indices ! k = other ! k"
    using p(2) by (metis nth_take)
  have "\<not> i < p" using top bnd2 p by (metis leD)
  then consider "p < i" | "p = i" by linarith
  then show ?thesis
  proof cases
    case 1
    have "take p ?x = take p other"
      by (rule nth_equalityI) (use 1 i p nx eqbelow len2 in \<open>auto\<close>)
    moreover have "?x ! p < other ! p" using 1 p nx by simp
    ultimately show ?thesis unfolding lex_less_def using p(1) nx by auto
  next
    case 2
    have tk: "take i ?x = take i other"
      by (rule nth_equalityI) (use 2 i p nx eqbelow len2 in \<open>auto\<close>)
    show ?thesis
    proof (cases "?x ! i < other ! i")
      case True
      then show ?thesis unfolding lex_less_def using i nx tk by auto
    next
      case False
      with 2 p nx i have eq: "other ! i = indices ! i + 1" by simp
      have "\<forall>k < r. ?x ! k \<le> other ! k"
      proof (intro allI impI)
        fix k
        assume k: "k < r"
        show "?x ! k \<le> other ! k"
        proof (cases "i \<le> k")
          case True
          with sorted_wrt_less_add [OF srt2 True] k len2 eq nx show ?thesis by simp
        next
          case False
          with eqbelow 2 nx k show ?thesis by simp
        qed
      qed
      with pointwise_le_lex [of ?x other] nx len2 show ?thesis by auto
    qed
  qed
qed

lemma comb_find_None_max:
  assumes "comb_find indices n r = None" "comb_inv n r other" "length indices = r"
  shows "\<not> lex_less indices other"
proof
  assume "lex_less indices other"
  then obtain p where "p < r" "indices ! p < other ! p" using assms(3) by (auto simp: lex_less_def)
  moreover have "\<forall>k < r. indices ! k = k + n - r"
    using find_rev_upt_None [OF assms(1) [unfolded comb_find_def]] by simp
  moreover from assms(2) have "length other = r" "\<forall>k < r. other ! k \<le> k + n - r"
    by (simp_all add: comb_inv_def)
  ultimately show False using assms(2) by (auto simp: comb_inv_def dest: leD)
qed

lemma comb_loop_complete:
  assumes "comb_inv n r indices" "comb_loop pool n r indices = Some ys"
    "comb_inv n r other" "lex_less indices other"
  shows "map (\<lambda>i. pool ! i) other \<in> set ys"
  using assms
proof (induction indices arbitrary: ys rule: wf_induct_rule [OF wf_inv_image [OF wf_lex [OF wf_less_than]], of "comb_gap n r"])
  case (1 x)
  show ?case
  proof (cases "comb_find x n r")
    case None
    with comb_find_None_max [OF None "1.prems"(3)] "1.prems"(1,4) show ?thesis by (simp add: comb_inv_def)
  next
    case (Some i)
    let ?x' = "comb_next x i r"
    have inv': "comb_inv n r ?x'" by (rule comb_inv_next [OF "1.prems"(1) Some])
    from comb_loop_ok [OF inv'] obtain ys' where ys': "comb_loop pool n r ?x' = Some ys'" by blast
    have "comb_loop pool n r x = Some (map (\<lambda>i. pool ! i) ?x' # ys')"
      by (subst comb_loop.simps) (simp add: Some ys' Let_def)
    with "1.prems"(2) have ys: "ys = map (\<lambda>i. pool ! i) ?x' # ys'" by simp
    have rel: "(?x', x) \<in> inv_image (lex less_than) (comb_gap n r)"
      using comb_gap_lex [OF "1.prems"(1) Some] by simp
    from comb_next_succ [OF "1.prems"(1) Some "1.prems"(3,4)] show ?thesis
    proof
      assume "other = ?x'"
      then show ?thesis using ys by simp
    next
      assume "lex_less ?x' other"
      from "1.IH" [OF rel inv' ys' "1.prems"(3) this] show ?thesis using ys by simp
    qed
  qed
qed

subsection \<open>Index vectors and subsequences\<close>

lemma subseq_map_nth:
  "sorted_wrt (<) idx \<Longrightarrow> \<forall>i \<in> set idx. m \<le> i \<and> i < length pool \<Longrightarrow>
   subseq (map (\<lambda>i. pool ! i) idx) (drop m pool)"
proof (induction idx arbitrary: m)
  case Nil
  then show ?case by simp
next
  case (Cons i idx)
  then have i: "m \<le> i" "i < length pool" by simp_all
  have d: "drop m pool = take (i - m) (drop m pool) @ pool ! i # drop (Suc i) pool"
    using i append_take_drop_id [of "i - m" "drop m pool"] Cons_nth_drop_Suc [OF i(2)] by simp
  from Cons have "subseq (map (\<lambda>i. pool ! i) idx) (drop (Suc i) pool)" by (intro Cons.IH) auto
  then have "subseq (pool ! i # map (\<lambda>i. pool ! i) idx) (pool ! i # drop (Suc i) pool)" by simp
  then show ?case by (subst d) (simp add: list_emb_append2)
qed

lemma subseq_indices:
  "subseq y pool \<Longrightarrow>
   \<exists>idx. sorted_wrt (<) idx \<and> (\<forall>i \<in> set idx. i < length pool) \<and> y = map (\<lambda>i. pool ! i) idx"
proof (induction rule: list_emb.induct)
  case (list_emb_Nil ys)
  then show ?case by (intro exI [of _ "[]"]) simp
next
  case (list_emb_Cons xs ys y)
  then obtain idx where "sorted_wrt (<) idx" "\<forall>i \<in> set idx. i < length ys" "xs = map (\<lambda>i. ys ! i) idx" by blast
  then show ?case by (intro exI [of _ "map Suc idx"]) (simp add: sorted_wrt_map)
next
  case (list_emb_Cons2 x y xs ys)
  then obtain idx where "sorted_wrt (<) idx" "\<forall>i \<in> set idx. i < length ys" "xs = map (\<lambda>i. ys ! i) idx" by blast
  then show ?case using list_emb_Cons2.hyps(1) by (intro exI [of _ "0 # map Suc idx"]) (simp add: sorted_wrt_map)
qed

lemma comb_inv_of_indices:
  assumes "sorted_wrt (<) idx" "\<forall>i \<in> set idx. i < n"
  shows "comb_inv n (length idx) idx"
proof (cases idx rule: rev_cases)
  case Nil
  then show ?thesis by (simp add: comb_inv_def)
next
  case (snoc ys y)
  let ?r = "length idx"
  have last: "idx ! (?r - 1) < n" using assms(2) snoc by simp
  have grow: "idx ! k + (?r - 1 - k) \<le> idx ! (?r - 1)" if "k < ?r" for k
    using sorted_wrt_less_add [OF assms(1), of k "?r - 1"] that by simp
  have "idx ! 0 + (?r - 1) \<le> idx ! (?r - 1)" using grow [of 0] snoc by simp
  then have rn: "?r \<le> n" using last by linarith
  have "\<forall>k < ?r. idx ! k \<le> k + n - ?r"
  proof (intro allI impI)
    fix k
    assume "k < ?r"
    with grow [of k] last rn show "idx ! k \<le> k + n - ?r" by linarith
  qed
  with assms(1) rn show ?thesis by (simp add: comb_inv_def)
qed

lemma comb_inv_subseq:
  assumes "comb_inv (length pool) r idx"
  shows "subseq (map (\<lambda>i. pool ! i) idx) pool \<and> length (map (\<lambda>i. pool ! i) idx) = r"
proof -
  have "\<forall>i \<in> set idx. i < length pool"
  proof
    fix i
    assume "i \<in> set idx"
    then obtain k where k: "k < length idx" "i = idx ! k" by (auto simp: in_set_conv_nth)
    with assms show "i < length pool" by (auto simp: comb_inv_def dest!: spec [of _ k])
  qed
  with assms subseq_map_nth [of idx 0 pool] show ?thesis by (simp add: comb_inv_def)
qed

lemma combinations_Some:
  "\<exists>ys. combinations pool r = Some ys \<and> set ys = {y. subseq y pool \<and> length y = r}"
proof (cases "r > length pool")
  case True
  then show ?thesis by (auto simp: combinations_def dest: list_emb_length)
next
  case False
  let ?n = "length pool" and ?i0 = "[0..<r]"
  have "\<forall>k < r. k \<le> k + ?n - r" using False by auto
  then have inv0: "comb_inv ?n r ?i0" using False by (simp add: comb_inv_def)
  from comb_loop_ok [OF inv0] obtain ys where
    ys: "comb_loop pool ?n r ?i0 = Some ys" "\<forall>y \<in> set ys. \<exists>idx. comb_inv ?n r idx \<and> y = map (\<lambda>i. pool ! i) idx"
    by blast
  have c: "combinations pool r = Some (map (\<lambda>i. pool ! i) ?i0 # ys)"
    using False by (simp add: combinations_def ys(1))
  have "set (map (\<lambda>i. pool ! i) ?i0 # ys) = {y. subseq y pool \<and> length y = r}"
  proof (intro set_eqI iffI)
    fix y
    assume "y \<in> set (map (\<lambda>i. pool ! i) ?i0 # ys)"
    then obtain idx where "comb_inv ?n r idx" "y = map (\<lambda>i. pool ! i) idx" using ys(2) inv0 by auto
    then show "y \<in> {y. subseq y pool \<and> length y = r}" using comb_inv_subseq by blast
  next
    fix y
    assume "y \<in> {y. subseq y pool \<and> length y = r}"
    then have y: "subseq y pool" "length y = r" by simp_all
    from subseq_indices [OF y(1)] obtain idx where
      idx: "sorted_wrt (<) idx" "\<forall>i \<in> set idx. i < ?n" "y = map (\<lambda>i. pool ! i) idx" by blast
    with y(2) have inv: "comb_inv ?n r idx" using comb_inv_of_indices [OF idx(1,2)] by simp
    have "\<forall>k < r. ?i0 ! k \<le> idx ! k"
    proof (intro allI impI)
      fix k
      assume "k < r"
      with sorted_wrt_less_add [OF idx(1), of 0 k] inv show "?i0 ! k \<le> idx ! k"
        by (simp add: comb_inv_def)
    qed
    then have "?i0 = idx \<or> lex_less ?i0 idx" using pointwise_le_lex [of ?i0 idx] inv by (simp add: comb_inv_def)
    then show "y \<in> set (map (\<lambda>i. pool ! i) ?i0 # ys)"
      using comb_loop_complete [OF inv0 ys(1) inv] idx(3) by auto
  qed
  with c show ?thesis by blast
qed

subsection \<open>Holds and the strategy\<close>

lemma collect_subsets_Some:
  "\<exists>ys. collect_subsets hand rs = Some ys \<and> set ys = {y. subseq y hand \<and> length y \<in> set rs}"
proof (induction rs)
  case Nil
  then show ?case by simp
next
  case (Cons r rs)
  from combinations_Some [of hand r] obtain cs where
    cs: "combinations hand r = Some cs" "set cs = {y. subseq y hand \<and> length y = r}" by blast
  from Cons.IH obtain ys where ys: "collect_subsets hand rs = Some ys"
    "set ys = {y. subseq y hand \<and> length y \<in> set rs}" by blast
  show ?case using cs ys by auto
qed

lemma gen_all_holds_subseqs: "gen_all_holds hand = Some {h. subseq h hand}"
proof -
  from collect_subsets_Some [of hand "[0..<length hand + 1]"] obtain ys where
    ys: "collect_subsets hand [0..<length hand + 1] = Some ys"
      "set ys = {y. subseq y hand \<and> length y \<in> set [0..<length hand + 1]}" by blast
  have len: "length y < length hand + 1" if "subseq y hand" for y
    using list_emb_length [OF that] by simp
  have "set ys = {h. subseq h hand}"
  proof (intro set_eqI iffI)
    fix h
    assume "h \<in> set ys"
    then show "h \<in> {h. subseq h hand}" unfolding ys(2) by simp
  next
    fix h
    assume "h \<in> {h. subseq h hand}"
    then have "subseq h hand" by simp
    with len [OF this] show "h \<in> set ys" unfolding ys(2) by (simp del: upt_Suc)
  qed
  with ys(1) show ?thesis by (simp add: gen_all_holds_def)
qed

lemma strategy_loop_max:
  assumes "\<forall>h \<in> set hs. \<exists>v. expected_value h sides (length hand - length h) = Inr v"
  shows "\<exists>m t. strategy_loop hand sides (m0, t0) hs = Inr (m, t) \<and> m0 \<le> m \<and>
           (\<forall>h \<in> set hs. \<forall>v. expected_value h sides (length hand - length h) = Inr v \<longrightarrow> v \<le> m) \<and>
           ((m = m0 \<and> t = t0) \<or> (\<exists>h \<in> set hs. t = Some h \<and> expected_value h sides (length hand - length h) = Inr m))"
  using assms
proof (induction hs arbitrary: m0 t0)
  case Nil
  then show ?case by simp
next
  case (Cons h hs)
  from Cons.prems obtain v where v: "expected_value h sides (length hand - length h) = Inr v" by auto
  show ?case
  proof (cases "m0 < v")
    case True
    from Cons.IH [of v "Some h"] Cons.prems obtain m t where
      r: "strategy_loop hand sides (v, Some h) hs = Inr (m, t)" "v \<le> m"
      "\<forall>h \<in> set hs. \<forall>v. expected_value h sides (length hand - length h) = Inr v \<longrightarrow> v \<le> m"
      "(m = v \<and> t = Some h) \<or> (\<exists>h \<in> set hs. t = Some h \<and> expected_value h sides (length hand - length h) = Inr m)"
      by auto
    show ?thesis using r v True by (intro exI [of _ m] exI [of _ t]) auto
  next
    case False
    from Cons.IH [of m0 t0] Cons.prems obtain m t where
      r: "strategy_loop hand sides (m0, t0) hs = Inr (m, t)" "m0 \<le> m"
      "\<forall>h \<in> set hs. \<forall>v. expected_value h sides (length hand - length h) = Inr v \<longrightarrow> v \<le> m"
      "(m = m0 \<and> t = t0) \<or> (\<exists>h \<in> set hs. t = Some h \<and> expected_value h sides (length hand - length h) = Inr m)"
      by auto
    show ?thesis using r v False by (intro exI [of _ m] exI [of _ t]) auto
  qed
qed

lemma expected_value_roll_all_pos:
  assumes "1 \<le> sides" "0 < free"
  shows "\<exists>v. expected_value [] sides free = Inr v \<and> 0 < v"
proof -
  let ?S = "gen_all_sequences [1..sides] free"
  have "replicate free 1 \<in> ?S" using assms by (auto simp: gen_all_sequences_eq)
  then have ne: "?S \<noteq> {}" by blast
  have "\<forall>s \<in> ?S. 0 < upper_score s"
    using assms by (auto simp: gen_all_sequences_eq intro!: upper_score_pos)
  then have "0 < (\<Sum>s \<in> ?S. upper_score s)" using ne by (intro sum_pos) auto
  then have "0 < (of_int (\<Sum>s \<in> ?S. upper_score s) :: rat)" by (simp del: of_int_sum)
  moreover have "0 < (of_nat (nat sides ^ free) :: rat)" using assms(1) by simp
  ultimately have "0 < (of_int (\<Sum>s \<in> ?S. upper_score s) / of_nat (nat sides ^ free) :: rat)"
    by (rule divide_pos_pos)
  moreover have "nat sides ^ free \<noteq> 0" using assms(1) by simp
  ultimately show ?thesis using expected_value_unfold [of "[]" free sides] assms(2)
    by (simp only: append_Nil if_False) blast
qed

subsection \<open>Properties of the planner\<close>

text \<open>
  C16. \<open>gen_all_holds\<close> returns (its loops end) exactly the subsequences of
  the hand: every choice of dice to hold, in hand order, repeated faces
  counted as often as they occur.
\<close>

theorem gen_all_holds_eq: "gen_all_holds hand = Some (set (subseqs hand))"
  by (simp add: gen_all_holds_subseqs set_subseqs_eq)

text \<open>The five cases of \<open>holds_testsuite.run_suite\<close> hold.\<close>

theorem holds_suite_pass: "list_all (\<lambda>(hand, expected). gen_all_holds hand = Some expected) holds_suite"
  by code_simp

text \<open>The eleven cases of \<open>run_test_suite\<close> in \<open>yahtzee.py\<close>.\<close>

theorem yahtzee_suite_pass:
  "list_all (\<lambda>(hand, expected). score hand = Inr expected) score_suite \<and>
   gen_all_holds [5, 5, 5, 6, 6 :: int] =
     Some {[], [5, 5, 5, 6], [5, 5, 5, 6, 6], [5, 5, 6], [5, 5, 5], [5], [5, 5], [6], [5, 6],
           [5, 5, 6, 6], [6, 6], [5, 6, 6]}"
  by code_simp

text \<open>
  C17. For a non-empty hand and dice with at least one side, \<open>strategy\<close>
  returns a hold: a subsequence of the hand whose expected value is the one
  returned, and no other hold has a greater expected value.
\<close>

theorem strategy_best:
  assumes "hand \<noteq> []" "1 \<le> num_die_sides"
  shows "\<exists>m h. strategy hand num_die_sides = Some (Inr (m, Some h)) \<and> subseq h hand \<and>
           expected_value h num_die_sides (length hand - length h) = Inr m \<and>
           (\<forall>h'. subseq h' hand \<longrightarrow>
              (\<exists>v. expected_value h' num_die_sides (length hand - length h') = Inr v \<and> v \<le> m))"
proof -
  let ?H = "{h. subseq h hand}"
  have fin: "finite ?H" using set_subseqs_eq [of hand] by (metis List.finite_set)
  let ?L = "sorted_list_of_set ?H"
  have setL: "set ?L = ?H" using fin by simp
  have ok: "\<exists>v. expected_value h num_die_sides (length hand - length h) = Inr v" if "subseq h hand" for h
  proof -
    have "h \<noteq> [] \<or> 0 < length hand - length h" using assms(1) by (cases h) auto
    from expected_value_unfold [OF this] assms(2) show ?thesis by simp
  qed
  have all: "\<forall>h \<in> set ?L. \<exists>v. expected_value h num_die_sides (length hand - length h) = Inr v"
    using ok setL by blast
  from strategy_loop_max [OF all, of 0 None] obtain m t where
    r: "strategy_loop hand num_die_sides (0, None) ?L = Inr (m, t)"
    "\<forall>h \<in> set ?L. \<forall>v. expected_value h num_die_sides (length hand - length h) = Inr v \<longrightarrow> v \<le> m"
    "(m = 0 \<and> t = None) \<or> (\<exists>h \<in> set ?L. t = Some h \<and> expected_value h num_die_sides (length hand - length h) = Inr m)"
    by blast
  from expected_value_roll_all_pos [OF assms(2)] assms(1) obtain v0 where
    v0: "expected_value [] num_die_sides (length hand - length []) = Inr v0" "0 < v0" by auto
  have "[] \<in> set ?L" using setL by simp
  with r(2) v0 have "0 < m" by fastforce
  with r(3) obtain h where h: "h \<in> ?H" "t = Some h" "expected_value h num_die_sides (length hand - length h) = Inr m"
    using setL by auto
  have "strategy hand num_die_sides = Some (Inr (m, Some h))"
    using r(1) h(2) by (simp add: strategy_def gen_all_holds_subseqs)
  moreover have "\<forall>h'. subseq h' hand \<longrightarrow>
              (\<exists>v. expected_value h' num_die_sides (length hand - length h') = Inr v \<and> v \<le> m)"
    using ok r(2) setL by blast
  ultimately show ?thesis using h by blast
qed

text \<open>
  \<open>gen_all_sequences\<close> enumerates
  \<open>card outcomes ^ length\<close> sequences: all of that length over the outcomes.
\<close>

theorem gen_all_sequences_card:
  "card (gen_all_sequences outcomes n) = card (set outcomes) ^ n"
proof -
  have "gen_all_sequences outcomes n = {xs. set xs \<subseteq> set outcomes \<and> length xs = n}"
    by (auto simp: gen_all_sequences_eq)
  then show ?thesis by (simp add: card_lists_length_eq)
qed

text \<open>
  C18. \<open>strategy\<close> on an empty hand raises \<open>ValueError\<close>: the only hold is
  the empty one, with no die to roll, and \<open>score\<close> takes the \<open>max\<close> of an
  empty list.
\<close>

theorem strategy_empty_hand: "strategy [] num_die_sides = Some (Inl ValueError)"
proof -
  have "{h :: int list. subseq h []} = {[]}" by auto
  then have "sorted_list_of_set {h :: int list. subseq h []} = [[]]" by simp
  moreover have "expected_value [] num_die_sides 0 = Inl ValueError"
    by (simp add: expected_value_def score_Nil)
  ultimately show ?thesis by (simp add: strategy_def gen_all_holds_subseqs)
qed

end
