(* ===== verification/Cookie_Clicker.thy ===== *)
theory Cookie_Clicker
  imports Prelude Complex_Main "HOL-Library.AList"
begin

text \<open>
  The Cookie Clicker simulator of \<open>src/cookie_clicker.py\<close>. Python's floats
  are rationals here: the code adds, subtracts, multiplies and divides them
  and takes \<open>math.ceil\<close>, all of which the rationals do exactly, so the
  model is the computation without rounding. The build information
  (\<open>BuildInfo\<close>, a dict from item name to \<open>[cost, cps]\<close>) is an association
  list in the order its keys are listed; the game state (\<open>ClickerState\<close>) is
  a record; every method returns the new object. A strategy is any function
  of the cookies, the CPS, the time left and the build information returning
  an item name or \<open>None\<close>. The main loop of \<open>simulate_clicker\<close> need not end
  (an item that costs nothing is bought forever): it is a
  \<open>partial_function\<close> in the option monad, and it is proved to end when every
  cost is positive.
\<close>

type_synonym item = string

record build_info =
  build_growth :: rat
  info :: "(item \<times> rat \<times> rat) list"

definition BUILD_GROWTH :: rat where
  "BUILD_GROWTH = 115 / 100"

definition SIM_TIME :: rat where
  "SIM_TIME = 10000000000"

text \<open>Lines 20-36: the default table, or a copy of the given one.\<close>

definition new_build_info :: "(item \<times> rat \<times> rat) list option \<Rightarrow> rat \<Rightarrow> build_info" where
  "new_build_info bi growth_factor =
     \<lparr>build_growth = growth_factor,
      info = (case bi of
                None \<Rightarrow>
                  [(''Cursor'', 15, 1 / 10), (''Grandma'', 100, 1 / 2), (''Farm'', 500, 4),
                   (''Factory'', 3000, 10), (''Mine'', 10000, 40), (''Shipment'', 40000, 100),
                   (''Alchemy Lab'', 200000, 400), (''Portal'', 1666666, 6666),
                   (''Time Machine'', 123456789, 98765),
                   (''Antimatter Condenser'', 3999999999, 999999)]
              | Some build_info \<Rightarrow> build_info)\<rparr>"

definition build_items :: "build_info \<Rightarrow> item list" where
  "build_items bi = map fst (info bi)"

text \<open>Lines 44-56: a missing key raises \<open>KeyError\<close>.\<close>

definition get_cost :: "build_info \<Rightarrow> item \<Rightarrow> rat result" where
  "get_cost bi item = (case map_of (info bi) item of None \<Rightarrow> Inl KeyError | Some (cost, cps) \<Rightarrow> Inr cost)"

definition build_get_cps :: "build_info \<Rightarrow> item \<Rightarrow> rat result" where
  "build_get_cps bi item = (case map_of (info bi) item of None \<Rightarrow> Inl KeyError | Some (cost, cps) \<Rightarrow> Inr cps)"

definition update_item :: "build_info \<Rightarrow> item \<Rightarrow> build_info result" where
  "update_item bi item =
     (case map_of (info bi) item of
        None \<Rightarrow> Inl KeyError
      | Some (cost, cps) \<Rightarrow> Inr (bi\<lparr>info := AList.update item (cost * build_growth bi, cps) (info bi)\<rparr>))"

definition clone :: "build_info \<Rightarrow> build_info" where
  "clone bi = new_build_info (Some (info bi)) (build_growth bi)"

text \<open>Lines 73-83: the state, and the history entries \<open>(time, item, cost, total cookies)\<close>.\<close>

record clicker_state =
  cookies :: rat
  total_cookies :: rat
  cps :: rat
  current_time :: rat
  history :: "(rat \<times> item option \<times> rat \<times> rat) list"

definition new_clicker_state :: clicker_state where
  "new_clicker_state =
     \<lparr>cookies = 0, total_cookies = 0, cps = 1, current_time = 0, history = [(0, None, 0, 0)]\<rparr>"

definition get_cookies :: "clicker_state \<Rightarrow> rat" where
  "get_cookies s = cookies s"

definition get_cps :: "clicker_state \<Rightarrow> rat" where
  "get_cps s = cps s"

definition get_time :: "clicker_state \<Rightarrow> rat" where
  "get_time s = current_time s"

definition get_history :: "clicker_state \<Rightarrow> (rat \<times> item option \<times> rat \<times> rat) list" where
  "get_history s = history s"

text \<open>Lines 128-137: a division by a zero CPS raises \<open>ZeroDivisionError\<close>.\<close>

definition time_until :: "clicker_state \<Rightarrow> rat \<Rightarrow> rat result" where
  "time_until s c =
     (if cookies s \<ge> c then Inr 0
      else if cps s = 0 then Inl ZeroDivisionError
      else Inr (of_int (ceiling ((c - cookies s) / cps s))))"

text \<open>Lines 139-149.\<close>

definition wait :: "clicker_state \<Rightarrow> rat \<Rightarrow> clicker_state" where
  "wait s time =
     (if time \<le> 0 then s
      else s\<lparr>cookies := cookies s + time * cps s,
             total_cookies := total_cookies s + time * cps s,
             current_time := current_time s + time\<rparr>)"

text \<open>Lines 151-161.\<close>

definition buy_item :: "clicker_state \<Rightarrow> item \<Rightarrow> rat \<Rightarrow> rat \<Rightarrow> clicker_state" where
  "buy_item s item_name cost additional_cps =
     (if cookies s \<ge> cost
      then s\<lparr>cookies := cookies s - cost, cps := cps s + additional_cps,
             history := history s @ [(current_time s, Some item_name, cost, total_cookies s)]\<rparr>
      else s)"

type_synonym strategy = "rat \<Rightarrow> rat \<Rightarrow> rat \<Rightarrow> build_info \<Rightarrow> item option"

text \<open>
  Lines 177-210: one pass of the \<open>while\<close> loop per call; \<open>Some (Inr (s, bi))\<close>
  is the state at a \<open>break\<close> or when the time is past the duration.
\<close>

partial_function (option) simulate_loop ::
  "strategy \<Rightarrow> rat \<Rightarrow> build_info \<Rightarrow> clicker_state \<Rightarrow> (clicker_state \<times> build_info) result option" where
  "simulate_loop strategy duration build_info_object click_object =
     (if get_time click_object \<le> duration then
        (let time_left = duration - get_time click_object
         in case strategy (get_cookies click_object) (get_cps click_object) time_left build_info_object of
              None \<Rightarrow> Some (Inr (click_object, build_info_object))
            | Some item \<Rightarrow>
                (case get_cost build_info_object item of
                   Inl e \<Rightarrow> Some (Inl e)
                 | Inr cost \<Rightarrow>
                     (case time_until click_object cost of
                        Inl e \<Rightarrow> Some (Inl e)
                      | Inr time_to_wait \<Rightarrow>
                          if time_left < time_to_wait then Some (Inr (click_object, build_info_object))
                          else
                            (let click_object' = wait click_object time_to_wait
                             in case build_get_cps build_info_object item of
                                  Inl e \<Rightarrow> Some (Inl e)
                                | Inr additional_cps \<Rightarrow>
                                    (let click_object'' = buy_item click_object' item cost additional_cps
                                     in case update_item build_info_object item of
                                          Inl e \<Rightarrow> Some (Inl e)
                                        | Inr build_info_object' \<Rightarrow>
                                            simulate_loop strategy duration build_info_object' click_object'')))))
      else Some (Inr (click_object, build_info_object)))"

text \<open>Lines 164-218: the loop from a fresh state and a clone, then the wait for the time left.\<close>

definition simulate_clicker :: "build_info \<Rightarrow> rat \<Rightarrow> strategy \<Rightarrow> clicker_state result option" where
  "simulate_clicker build_info duration strategy =
     map_option (\<lambda>r. err_bind r (\<lambda>(click_object, build_info_object).
         let time_left = duration - get_time click_object
         in Inr (if time_left > 0 then wait click_object time_left else click_object)))
       (simulate_loop strategy duration (clone build_info) new_clicker_state)"

text \<open>Lines 221-232.\<close>

definition strategy_cursor_broken :: strategy where
  "strategy_cursor_broken cookies_now cps_now time_left build_info = Some ''Cursor''"

text \<open>
  Lines 235-242. \<open>strategy_none\<close>, \<open>strategy_cheap\<close> and
  \<open>strategy_expensive\<close> take the history as a third parameter, so they are
  not of type \<open>strategy\<close>: \<open>simulate_clicker\<close> calls its strategy with four
  arguments, and passing one of them raises \<open>TypeError\<close> at the first call.
\<close>

definition strategy_none ::
  "rat \<Rightarrow> rat \<Rightarrow> (rat \<times> item option \<times> rat \<times> rat) list \<Rightarrow> rat \<Rightarrow> build_info \<Rightarrow> item option" where
  "strategy_none cookies_now cps_now hist time_left build_info = None"

text \<open>
  Lines 244-251: the first statement reads the module-level name
  \<open>build_info\<close>, which the module never defines (only parameters bear that
  name), so the call raises \<open>NameError\<close> before the loop, whose \<open>costs\<close> is
  undefined as well.
\<close>

definition map_costs_to_items :: "(rat \<rightharpoonup> item) result" where
  "map_costs_to_items = Inl NameError"

text \<open>
  Lines 253-270: after \<open>map_costs_to_items\<close>, the subscript reads the
  undefined \<open>costs_mapping\<close> before the \<open>min\<close> or \<open>max\<close> is taken, which
  raises \<open>NameError\<close> too.
\<close>

definition strategy_cheap ::
  "rat \<Rightarrow> rat \<Rightarrow> (rat \<times> item option \<times> rat \<times> rat) list \<Rightarrow> rat \<Rightarrow> build_info \<Rightarrow> item result" where
  "strategy_cheap cookies_now cps_now hist time_left build_info =
     (let future_cookies = cookies_now + cps_now * time_left
      in err_bind map_costs_to_items (\<lambda>costs_map. Inl NameError))"

definition strategy_expensive ::
  "rat \<Rightarrow> rat \<Rightarrow> (rat \<times> item option \<times> rat \<times> rat) list \<Rightarrow> rat \<Rightarrow> build_info \<Rightarrow> item result" where
  "strategy_expensive cookies_now cps_now hist time_left build_info =
     (let future_cookies = cookies_now + cps_now * time_left
      in err_bind map_costs_to_items (\<lambda>costs_map. Inl NameError))"

text \<open>
  Lines 281-306: over the items in order, the first affordable one with the
  strictly greatest CPS per cost; dividing by a zero cost raises.
\<close>

definition cps_ratio :: "build_info \<Rightarrow> item \<Rightarrow> rat result" where
  "cps_ratio bi item =
     err_bind (build_get_cps bi item) (\<lambda>p. err_bind (get_cost bi item) (\<lambda>c.
       if c = 0 then Inl ZeroDivisionError else Inr (p / c)))"

fun best_ratio_loop ::
  "build_info \<Rightarrow> rat \<Rightarrow> item option \<times> rat \<Rightarrow> item list \<Rightarrow> (item option \<times> rat) result" where
  "best_ratio_loop bi end_cookies acc [] = Inr acc"
| "best_ratio_loop bi end_cookies (best_ratio_item, best_ratio) (item # items) =
     err_bind (get_cost bi item) (\<lambda>cost.
       if cost > end_cookies then best_ratio_loop bi end_cookies (best_ratio_item, best_ratio) items
       else if best_ratio_item = None then
         err_bind (cps_ratio bi item) (\<lambda>r. best_ratio_loop bi end_cookies (Some item, r) items)
       else
         err_bind (cps_ratio bi item) (\<lambda>curr_ratio.
           if curr_ratio > best_ratio then best_ratio_loop bi end_cookies (Some item, curr_ratio) items
           else best_ratio_loop bi end_cookies (best_ratio_item, best_ratio) items))"

definition strategy_best_cps_cost_ratio :: "rat \<Rightarrow> rat \<Rightarrow> rat \<Rightarrow> build_info \<Rightarrow> item option result" where
  "strategy_best_cps_cost_ratio cookies_now cps_now time_left build_info =
     (let end_cookies = cookies_now + cps_now * time_left
      in err_bind (best_ratio_loop build_info end_cookies (None, 0) (build_items build_info))
           (\<lambda>(best_ratio_item, best_ratio). Inr best_ratio_item))"

text \<open>Lines 273-278.\<close>

definition strategy_best :: "rat \<Rightarrow> rat \<Rightarrow> rat \<Rightarrow> build_info \<Rightarrow> item option result" where
  "strategy_best cookies_now cps_now time_left build_info =
     (let item = strategy_best_cps_cost_ratio cookies_now cps_now time_left build_info in item)"

text \<open>
  Lines 309-336: \<open>run\<close> simulates the cursor strategy for \<open>SIM_TIME\<close>
  seconds (the other calls are commented out); the state is printed, which is
  left out. \<open>clicker.BuildInfo()\<close> of the course module \<open>clicker\<close>, not in
  the repository, is taken to be the default table of \<open>BuildInfo\<close> above.
\<close>

definition run_strategy :: "rat \<Rightarrow> strategy \<Rightarrow> clicker_state result option" where
  "run_strategy time strategy = simulate_clicker (new_build_info None BUILD_GROWTH) time strategy"

definition run_clicker :: "clicker_state result option" where
  "run_clicker = run_strategy SIM_TIME strategy_cursor_broken"

text \<open>
  The history invariant of a state: the first entry is the initial one, the
  recorded times and total cookies are non-decreasing and bounded by the
  current ones, every later entry names an item, the cookies in hand are not
  negative and the CPS is at least one. Each part holds in floating-point
  arithmetic as well: it only compares values that additions of non-negative
  amounts and subtractions of at most the minuend produce.
\<close>

definition hist_ok :: "clicker_state \<Rightarrow> bool" where
  "hist_ok s \<longleftrightarrow>
     history s \<noteq> [] \<and> hd (history s) = (0, None, 0, 0) \<and>
     sorted (map (\<lambda>(t, i, c, tot). t) (history s)) \<and> sorted (map (\<lambda>(t, i, c, tot). tot) (history s)) \<and>
     (\<forall>(t, i, c, tot) \<in> set (tl (history s)). i \<noteq> None) \<and>
     (\<forall>(t, i, c, tot) \<in> set (history s). t \<le> current_time s \<and> tot \<le> total_cookies s) \<and>
     0 \<le> cookies s \<and> 1 \<le> cps s"

text \<open>Build information whose CPS increments are not negative.\<close>

definition cps_nonneg :: "build_info \<Rightarrow> bool" where
  "cps_nonneg bi \<longleftrightarrow> (\<forall>(n, c, p) \<in> set (info bi). 0 \<le> p)"

text \<open>
  Build information under which the loop ends: costs at least \<open>cmin\<close>,
  CPS increments non-negative, a growth factor of at least one.
\<close>

definition bi_ok :: "rat \<Rightarrow> build_info \<Rightarrow> bool" where
  "bi_ok cmin bi \<longleftrightarrow> 1 \<le> build_growth bi \<and> (\<forall>(n, c, p) \<in> set (info bi). cmin \<le> c \<and> 0 \<le> p)"

definition loop_measure :: "rat \<Rightarrow> rat \<Rightarrow> (build_info \<times> clicker_state) rel" where
  "loop_measure duration cmin =
     measures [\<lambda>(bi, s). nat (floor (duration - current_time s)), \<lambda>(bi, s). nat (floor (cookies s / cmin))]"

declare simulate_loop.simps [code]

subsection \<open>One pass of the loop\<close>

text \<open>
  Induction over the passes of a loop that returns: a property of the exits
  that every pass carries back to the state it started from.
\<close>

lemma simulate_loop_rule:
  assumes run: "simulate_loop strategy duration bi s = Some y"
    and exit: "\<And>bi s. P bi s (Inr (s, bi))"
    and err: "\<And>bi s e. P bi s (Inl e)"
    and step: "\<And>bi s item cost ttw p bi' y.
      get_time s \<le> duration \<Longrightarrow>
      strategy (get_cookies s) (get_cps s) (duration - get_time s) bi = Some item \<Longrightarrow>
      get_cost bi item = Inr cost \<Longrightarrow> time_until s cost = Inr ttw \<Longrightarrow>
      \<not> duration - get_time s < ttw \<Longrightarrow> build_get_cps bi item = Inr p \<Longrightarrow>
      update_item bi item = Inr bi' \<Longrightarrow>
      P bi' (buy_item (wait s ttw) item cost p) y \<Longrightarrow> P bi s y"
  shows "P bi s y"
proof -
  have "strategy = strategy \<longrightarrow> duration = duration \<longrightarrow> P bi s y"
  proof (rule simulate_loop.raw_induct [where P = "\<lambda>st d bi s y. st = strategy \<longrightarrow> d = duration \<longrightarrow> P bi s y",
           OF _ run], goal_cases)
    case (1 f st d bi s y)
    then show ?case using exit err step by (auto simp: Let_def split: if_splits option.splits sum.splits)
  qed
  then show ?thesis by simp
qed

lemma time_wait: "current_time (wait s t) = (if t \<le> 0 then current_time s else current_time s + t)"
  by (simp add: wait_def)

lemma time_buy [simp]: "current_time (buy_item s item cost p) = current_time s"
  by (simp add: buy_item_def)

lemma hist_ok_new: "hist_ok new_clicker_state"
  by (simp add: hist_ok_def new_clicker_state_def)

lemma set_update_subset: "set (AList.update k v al) \<subseteq> insert (k, v) (set al)"
  by (induction al) auto

lemma get_cost_in: "get_cost bi item = Inr cost \<Longrightarrow> \<exists>p. (item, cost, p) \<in> set (info bi)"
  by (auto simp: get_cost_def split: option.splits dest: map_of_SomeD)

lemma build_get_cps_in: "build_get_cps bi item = Inr p \<Longrightarrow> \<exists>c. (item, c, p) \<in> set (info bi)"
  by (auto simp: build_get_cps_def split: option.splits dest: map_of_SomeD)

lemma clone_id [simp]: "clone bi = bi"
  by (simp add: clone_def new_build_info_def)

lemma hist_bound_mono:
  fixes t t' T T' :: rat
  shows "\<forall>(a, i, c, tot) \<in> set H. a \<le> t \<and> tot \<le> T \<Longrightarrow> t \<le> t' \<Longrightarrow> T \<le> T' \<Longrightarrow>
   \<forall>(a, i, c, tot) \<in> set H. a \<le> t' \<and> tot \<le> T'"
  by (auto intro: order_trans)

lemma hist_ok_wait: "hist_ok s \<Longrightarrow> hist_ok (wait s t)"
proof (cases "t \<le> 0")
  case False
  assume h: "hist_ok s"
  then have c: "1 \<le> cps s" "0 \<le> cookies s" by (simp_all add: hist_ok_def)
  then have ge: "0 \<le> t * cps s" using False by simp
  have w: "wait s t = s\<lparr>cookies := cookies s + t * cps s, total_cookies := total_cookies s + t * cps s,
                          current_time := current_time s + t\<rparr>"
    using False by (simp add: wait_def)
  have b: "\<forall>(a, i, c, tot) \<in> set (history s). a \<le> current_time s + t \<and> tot \<le> total_cookies s + t * cps s"
    using hist_bound_mono [of "history s" "current_time s" "total_cookies s"] h False ge
    by (simp add: hist_ok_def)
  show ?thesis using h b c ge unfolding w hist_ok_def by simp
qed (simp add: wait_def)

lemma hist_ok_buy:
  assumes h: "hist_ok s" and p: "0 \<le> p"
  shows "hist_ok (buy_item s item cost p)"
proof (cases "cost \<le> cookies s")
  case True
  let ?H = "history s" and ?e = "(current_time s, Some item, cost, total_cookies s)"
  have ne: "?H \<noteq> []" and bnd: "\<forall>(a, i, c, tot) \<in> set ?H. a \<le> current_time s \<and> tot \<le> total_cookies s"
    using h by (simp_all add: hist_ok_def)
  have st: "sorted (map (\<lambda>(t, i, c, tot). t) (?H @ [?e]))"
    using h bnd by (simp add: hist_ok_def sorted_append split_beta)
  have sc: "sorted (map (\<lambda>(t, i, c, tot). tot) (?H @ [?e]))"
    using h bnd by (simp add: hist_ok_def sorted_append split_beta)
  have tl: "tl (?H @ [?e]) = tl ?H @ [?e]" using ne by simp
  have b: "\<forall>(a, i, c, tot) \<in> set (?H @ [?e]). a \<le> current_time s \<and> tot \<le> total_cookies s"
    using bnd by simp
  have buy: "buy_item s item cost p =
      s\<lparr>cookies := cookies s - cost, cps := cps s + p, history := ?H @ [?e]\<rparr>"
    using True by (simp add: buy_item_def)
  show ?thesis using h p True ne st sc b unfolding buy hist_ok_def tl by simp
qed (simp add: buy_item_def h)

lemma cps_nonneg_update:
  "cps_nonneg bi \<Longrightarrow> update_item bi item = Inr bi' \<Longrightarrow> cps_nonneg bi'"
  using set_update_subset
  by (fastforce simp: cps_nonneg_def update_item_def split: option.splits dest!: map_of_SomeD)

lemma simulate_loop_hist_ok:
  assumes "simulate_loop strategy duration bi s = Some y"
  shows "cps_nonneg bi \<longrightarrow> hist_ok s \<longrightarrow> (\<forall>s' bi'. y = Inr (s', bi') \<longrightarrow> hist_ok s')"
proof (rule simulate_loop_rule [where P = "\<lambda>bi s y. cps_nonneg bi \<longrightarrow> hist_ok s \<longrightarrow>
         (\<forall>s' bi'. y = Inr (s', bi') \<longrightarrow> hist_ok s')", OF assms])
  fix bi s item cost ttw p bi' y
  assume p: "build_get_cps bi item = Inr p" and u: "update_item bi item = Inr bi'"
    and IH: "cps_nonneg bi' \<longrightarrow> hist_ok (buy_item (wait s ttw) item cost p) \<longrightarrow>
             (\<forall>s' bi'. y = Inr (s', bi') \<longrightarrow> hist_ok s')"
  show "cps_nonneg bi \<longrightarrow> hist_ok s \<longrightarrow> (\<forall>s' bi'. y = Inr (s', bi') \<longrightarrow> hist_ok s')"
  proof (intro impI)
    assume c: "cps_nonneg bi" and h: "hist_ok s"
    from build_get_cps_in [OF p] c have "0 \<le> p" by (auto simp: cps_nonneg_def)
    with IH cps_nonneg_update [OF c u] hist_ok_buy [OF hist_ok_wait [OF h]]
    show "\<forall>s' bi'. y = Inr (s', bi') \<longrightarrow> hist_ok s'" by blast
  qed
qed auto

lemma time_step:
  assumes "0 \<le> current_time s" "current_time s \<le> duration" "\<not> duration - current_time s < ttw"
  shows "0 \<le> current_time (buy_item (wait s ttw) item cost p) \<and>
         current_time (buy_item (wait s ttw) item cost p) \<le> duration"
  using assms by (simp add: time_wait)

lemma simulate_loop_time:
  assumes "simulate_loop strategy duration bi s = Some y"
  shows "0 \<le> current_time s \<and> current_time s \<le> max duration 0 \<longrightarrow>
         (\<forall>s' bi'. y = Inr (s', bi') \<longrightarrow> 0 \<le> current_time s' \<and> current_time s' \<le> max duration 0)"
proof (rule simulate_loop_rule [where P = "\<lambda>bi s y. 0 \<le> current_time s \<and> current_time s \<le> max duration 0 \<longrightarrow>
         (\<forall>s' bi'. y = Inr (s', bi') \<longrightarrow> 0 \<le> current_time s' \<and> current_time s' \<le> max duration 0)", OF assms])
  fix bi s item cost ttw p bi' y
  assume le: "get_time s \<le> duration" and nl: "\<not> duration - get_time s < ttw"
    and IH: "0 \<le> current_time (buy_item (wait s ttw) item cost p) \<and>
             current_time (buy_item (wait s ttw) item cost p) \<le> max duration 0 \<longrightarrow>
             (\<forall>s' bi'. y = Inr (s', bi') \<longrightarrow> 0 \<le> current_time s' \<and> current_time s' \<le> max duration 0)"
  show "0 \<le> current_time s \<and> current_time s \<le> max duration 0 \<longrightarrow>
        (\<forall>s' bi'. y = Inr (s', bi') \<longrightarrow> 0 \<le> current_time s' \<and> current_time s' \<le> max duration 0)"
  proof
    assume "0 \<le> current_time s \<and> current_time s \<le> max duration 0"
    with le nl time_step [of s duration ttw item cost p] have
      "0 \<le> current_time (buy_item (wait s ttw) item cost p) \<and>
       current_time (buy_item (wait s ttw) item cost p) \<le> max duration 0"
      by (simp add: get_time_def)
    with IH show "\<forall>s' bi'. y = Inr (s', bi') \<longrightarrow> 0 \<le> current_time s' \<and> current_time s' \<le> max duration 0"
      by blast
  qed
qed simp_all

lemma simulate_clicker_Inr:
  assumes "simulate_clicker build_info duration strategy = Some (Inr s)"
  obtains s0 bi0 where
    "simulate_loop strategy duration (clone build_info) new_clicker_state = Some (Inr (s0, bi0))"
    "s = (if duration - get_time s0 > 0 then wait s0 (duration - get_time s0) else s0)"
  using assms by (auto simp: simulate_clicker_def Let_def err_bind_Inr_iff split: prod.splits)

subsection \<open>Properties of the simulator\<close>

text \<open>
  C19. Every state \<open>simulate_clicker\<close> returns, from build information
  whose CPS increments are not negative, has a chronological history: it
  starts with the initial entry \<open>(0, None, 0, 0)\<close>, its times and total
  cookies never decrease and never exceed the final time and total, every
  purchase names an item, the cookies in hand are not negative and the CPS is
  at least one.
\<close>

theorem simulate_clicker_history:
  assumes run: "simulate_clicker build_info duration strategy = Some (Inr s)"
    and nonneg: "\<forall>(n, c, p) \<in> set (info build_info). 0 \<le> p"
  shows "hd (get_history s) = (0, None, 0, 0) \<and>
         sorted (map (\<lambda>(t, i, c, tot). t) (get_history s)) \<and>
         sorted (map (\<lambda>(t, i, c, tot). tot) (get_history s)) \<and>
         (\<forall>(t, i, c, tot) \<in> set (tl (get_history s)). i \<noteq> None) \<and>
         (\<forall>(t, i, c, tot) \<in> set (get_history s). t \<le> get_time s \<and> tot \<le> total_cookies s) \<and>
         0 \<le> get_cookies s \<and> 1 \<le> get_cps s"
proof -
  obtain s0 bi0 where
    l: "simulate_loop strategy duration (clone build_info) new_clicker_state = Some (Inr (s0, bi0))"
    and s: "s = (if duration - get_time s0 > 0 then wait s0 (duration - get_time s0) else s0)"
    using simulate_clicker_Inr [OF run] by blast
  have "cps_nonneg (clone build_info)" using nonneg by (simp add: cps_nonneg_def)
  with simulate_loop_hist_ok [OF l] hist_ok_new have "hist_ok s0" by blast
  then have "hist_ok s" using s hist_ok_wait by simp
  then show ?thesis by (simp add: hist_ok_def get_history_def get_time_def get_cookies_def get_cps_def)
qed

text \<open>
  C20. A simulation that returns ends exactly at the duration (at time 0
  when the duration is negative): the loop never waits past it, and the
  final wait uses up the rest.
\<close>

theorem simulate_clicker_time:
  assumes "simulate_clicker build_info duration strategy = Some (Inr s)"
  shows "get_time s = max duration 0"
proof -
  from simulate_clicker_Inr [OF assms] obtain s0 bi0 where
    l: "simulate_loop strategy duration (clone build_info) new_clicker_state = Some (Inr (s0, bi0))"
    and s: "s = (if duration - get_time s0 > 0 then wait s0 (duration - get_time s0) else s0)" by blast
  have "0 \<le> current_time s0 \<and> current_time s0 \<le> max duration 0"
    using simulate_loop_time [OF l] by (simp add: new_clicker_state_def)
  with s show ?thesis by (auto simp: get_time_def time_wait)
qed

text \<open>
  C21. With a positive CPS, \<open>time_until\<close> is the least whole number of
  seconds after which the cookies reach the given amount.
\<close>

theorem time_until_least:
  assumes "0 < cps s"
  shows "\<exists>t. time_until s c = Inr t \<and> t = of_int (ceiling t) \<and> 0 \<le> t \<and> c \<le> cookies s + t * cps s \<and>
           (\<forall>k :: int. 0 \<le> k \<and> c \<le> cookies s + of_int k * cps s \<longrightarrow> t \<le> of_int k)"
proof (cases "c \<le> cookies s")
  case True
  then show ?thesis by (simp add: time_until_def)
next
  case False
  let ?x = "(c - cookies s) / cps s"
  have t: "time_until s c = Inr (of_int (ceiling ?x))" using False assms by (simp add: time_until_def)
  have pos: "0 < ?x" using False assms by simp
  have reach: "c \<le> cookies s + of_int (ceiling ?x) * cps s"
  proof -
    have "?x \<le> of_int (ceiling ?x)" by (rule le_of_int_ceiling)
    then have "?x * cps s \<le> of_int (ceiling ?x) * cps s"
      using assms by (intro mult_right_mono) simp_all
    then show ?thesis using assms by simp
  qed
  have least: "of_int (ceiling ?x) \<le> (of_int k :: rat)" if "c \<le> cookies s + of_int k * cps s" for k :: int
  proof -
    from that have "c - cookies s \<le> of_int k * cps s" by simp
    then have "?x \<le> of_int k" using assms by (simp add: divide_le_eq)
    then show ?thesis by (simp add: ceiling_le_iff)
  qed
  have "0 \<le> (of_int (ceiling ?x) :: rat)" using pos by (simp add: order_less_imp_le)
  with t reach least show ?thesis by auto
qed

subsection \<open>The loop ends when every cost is positive\<close>

lemma bi_ok_update:
  assumes "0 < cmin" "bi_ok cmin bi" "update_item bi item = Inr bi'"
  shows "bi_ok cmin bi'"
proof -
  from assms(3) obtain cost p where m: "map_of (info bi) item = Some (cost, p)"
    and bi': "bi' = bi\<lparr>info := AList.update item (cost * build_growth bi, p) (info bi)\<rparr>"
    by (auto simp: update_item_def split: option.splits)
  from map_of_SomeD [OF m] assms(2) have c: "cmin \<le> cost" "0 \<le> p" "1 \<le> build_growth bi"
    by (auto simp: bi_ok_def)
  with assms(1) have "cost \<le> cost * build_growth bi" by (simp add: mult_le_cancel_left1)
  with c have "cmin \<le> cost * build_growth bi" by simp
  with c assms(2) set_update_subset [of item "(cost * build_growth bi, p)" "info bi"] show ?thesis
    by (auto simp: bi_ok_def bi' dest!: subsetD)
qed

lemma cps_step: "1 \<le> cps s \<Longrightarrow> 0 \<le> p \<Longrightarrow> 1 \<le> cps (buy_item (wait s ttw) item cost p)"
  by (simp add: buy_item_def wait_def)

lemma loop_measure_step:
  assumes "0 < cmin" "cmin \<le> cost" "1 \<le> cps s" "current_time s \<le> duration"
    "time_until s cost = Inr ttw" "\<not> duration - current_time s < ttw"
  shows "((bi', buy_item (wait s ttw) item cost p), (bi, s)) \<in> loop_measure duration cmin"
proof (cases "cost \<le> cookies s")
  case True
  then have t: "ttw = 0" using assms(5) by (simp add: time_until_def)
  have s': "buy_item (wait s ttw) item cost p =
              s\<lparr>cookies := cookies s - cost, cps := cps s + p,
                history := history s @ [(current_time s, Some item, cost, total_cookies s)]\<rparr>"
    using True by (simp add: t wait_def buy_item_def)
  have "(cookies s - cost) / cmin \<le> cookies s / cmin - 1" using assms(1,2) by (simp add: diff_divide_distrib)
  then have "floor ((cookies s - cost) / cmin) \<le> floor (cookies s / cmin) - 1"
    by (metis floor_diff_of_int floor_mono of_int_1)
  moreover have "1 \<le> cookies s / cmin" using assms(1,2) True by simp
  then have "1 \<le> floor (cookies s / cmin)" by (simp add: le_floor_iff)
  ultimately have "nat (floor ((cookies s - cost) / cmin)) < nat (floor (cookies s / cmin))" by linarith
  then show ?thesis by (simp add: loop_measure_def s')
next
  case False
  let ?x = "(cost - cookies s) / cps s"
  have t: "ttw = of_int (ceiling ?x)" using assms(3,5) False by (simp add: time_until_def)
  have "0 < ?x" using assms(3) False by simp
  then have one: "1 \<le> ceiling ?x" by simp
  have le: "of_int (ceiling ?x) \<le> duration - current_time s" using assms(6) t by simp
  have tm: "current_time (buy_item (wait s ttw) item cost p) = current_time s + of_int (ceiling ?x)"
    using one by (simp add: t time_wait)
  have "floor (duration - (current_time s + of_int (ceiling ?x))) = floor (duration - current_time s) - ceiling ?x"
    by (metis diff_diff_eq2 floor_diff_of_int add.commute diff_diff_add)
  moreover have "ceiling ?x \<le> floor (duration - current_time s)" using le by (simp add: le_floor_iff)
  ultimately have "nat (floor (duration - current_time (buy_item (wait s ttw) item cost p))) <
                   nat (floor (duration - current_time s))"
    using one tm by linarith
  then show ?thesis by (simp add: loop_measure_def)
qed

lemma wf_loop_measure: "wf (loop_measure duration cmin)"
  by (simp add: loop_measure_def)

lemma update_item_keys:
  "update_item bi item = Inr bi' \<Longrightarrow> build_items bi' = build_items bi"
  by (auto simp: update_item_def build_items_def AList.update_keys split: option.splits
      dest!: map_of_SomeD) (metis fst_conv image_eqI)

lemma known_item:
  assumes "item \<in> set (build_items bi)"
  shows "\<exists>cost p bi'. get_cost bi item = Inr cost \<and> build_get_cps bi item = Inr p \<and> update_item bi item = Inr bi'"
proof -
  from assms obtain c p where "map_of (info bi) item = Some (c, p)"
    by (auto simp: build_items_def dest: weak_map_of_SomeI)
  then show ?thesis by (simp add: get_cost_def build_get_cps_def update_item_def)
qed

lemma time_until_Inr: "0 < cps s \<Longrightarrow> \<exists>t. time_until s c = Inr t"
  by (simp add: time_until_def)

lemma simulate_loop_Inr:
  assumes "0 < cmin"
    and known: "\<forall>ck cp tl b item. strategy ck cp tl b = Some item \<longrightarrow> item \<in> K"
  shows "bi_ok cmin (fst x) \<Longrightarrow> 1 \<le> cps (snd x) \<Longrightarrow> K \<subseteq> set (build_items (fst x)) \<Longrightarrow>
         \<exists>r. simulate_loop strategy duration (fst x) (snd x) = Some (Inr r)"
proof (induction x rule: wf_induct_rule [OF wf_loop_measure [of duration cmin]])
  case (1 x)
  obtain bi s where x: "x = (bi, s)" by (cases x)
  have rec: "\<exists>r. simulate_loop strategy duration bi' (buy_item (wait s ttw) item cost p) = Some (Inr r)"
    if "get_time s \<le> duration" "get_cost bi item = Inr cost" "time_until s cost = Inr ttw"
      "\<not> duration - get_time s < ttw" "build_get_cps bi item = Inr p" "update_item bi item = Inr bi'"
    for item cost ttw p bi'
  proof -
    from get_cost_in [OF that(2)] "1.prems"(1) x have c: "cmin \<le> cost" by (auto simp: bi_ok_def)
    from build_get_cps_in [OF that(5)] "1.prems"(1) x have p: "0 \<le> p" by (auto simp: bi_ok_def)
    have ok': "bi_ok cmin bi'" using bi_ok_update [OF assms(1) _ that(6)] "1.prems"(1) x by simp
    have cps': "1 \<le> cps (buy_item (wait s ttw) item cost p)" using cps_step "1.prems"(2) p x by simp
    have K': "K \<subseteq> set (build_items bi')" using update_item_keys [OF that(6)] "1.prems"(3) x by simp
    have "((bi', buy_item (wait s ttw) item cost p), x) \<in> loop_measure duration cmin"
      using loop_measure_step [OF assms(1) c _ _ that(3)] "1.prems"(2) that(1,4) x by (simp add: get_time_def)
    from "1.IH" [OF this] ok' cps' K' show ?thesis by simp
  qed
  have step: "\<exists>cost p bi'. get_cost bi item = Inr cost \<and> build_get_cps bi item = Inr p \<and> update_item bi item = Inr bi'"
    if "strategy ck cp tl bi = Some item" for ck cp tl item
  proof -
    from known that have "item \<in> K" by blast
    with "1.prems"(3) x have "item \<in> set (build_items bi)" by auto
    then show ?thesis by (rule known_item)
  qed
  have tu: "\<exists>t. time_until s c = Inr t" for c
    using time_until_Inr "1.prems"(2) x by simp
  show ?case
  proof (cases "get_time s \<le> duration")
    case True
    show ?thesis
    proof (cases "strategy (get_cookies s) (get_cps s) (duration - get_time s) bi")
      case None
      with True show ?thesis by (subst simulate_loop.simps) (simp add: x)
    next
      case (Some item)
      obtain cost p bi' where i: "get_cost bi item = Inr cost" "build_get_cps bi item = Inr p"
        "update_item bi item = Inr bi'" using step [OF Some] by blast
      obtain ttw where t: "time_until s cost = Inr ttw" using tu by blast
      show ?thesis
        using True Some i t rec [OF True i(1) t _ i(2,3)]
        by (subst simulate_loop.simps) (auto simp: x Let_def)
    qed
  next
    case False
    then show ?thesis by (subst simulate_loop.simps) (simp add: x)
  qed
qed

lemma zero_cost_loop:
  assumes "0 \<le> cookies s" "current_time s \<le> 1"
  shows "simulate_loop strategy_cursor_broken 1 (new_build_info (Some [(''Cursor'', 0, 1)]) BUILD_GROWTH) s = None"
proof (rule ccontr)
  let ?bi = "new_build_info (Some [(''Cursor'', 0, 1)]) BUILD_GROWTH"
  assume "simulate_loop strategy_cursor_broken 1 ?bi s \<noteq> None"
  then obtain y where run: "simulate_loop strategy_cursor_broken 1 ?bi s = Some y" by blast
  have upd: "update_item ?bi ''Cursor'' = Inr ?bi"
    by (simp add: update_item_def new_build_info_def)
  have costs: "get_cost ?bi ''Cursor'' = Inr 0" "build_get_cps ?bi ''Cursor'' = Inr 1"
    by (simp_all add: get_cost_def build_get_cps_def new_build_info_def)
  have "strategy_cursor_broken = strategy_cursor_broken \<longrightarrow> (1 :: rat) = 1 \<longrightarrow> ?bi = ?bi \<longrightarrow>
          0 \<le> cookies s \<longrightarrow> current_time s \<le> 1 \<longrightarrow> False"
  proof (rule simulate_loop.raw_induct [where P = "\<lambda>st d bi s y. st = strategy_cursor_broken \<longrightarrow> d = 1 \<longrightarrow>
           bi = ?bi \<longrightarrow> 0 \<le> cookies s \<longrightarrow> current_time s \<le> 1 \<longrightarrow> False", OF _ run], goal_cases)
    case (1 f st d bi s y)
    show ?case
    proof (intro impI)
      assume h: "st = strategy_cursor_broken" "d = 1" "bi = ?bi" "0 \<le> cookies s" "current_time s \<le> 1"
      let ?s' = "buy_item (wait s 0) ''Cursor'' 0 1"
      have tu: "time_until s 0 = Inr 0" using h(4) by (simp add: time_until_def)
      from "1"(2) h tu costs upd have "f strategy_cursor_broken 1 ?bi ?s' = Some y"
        by (simp add: Let_def get_time_def strategy_cursor_broken_def)
      from "1"(1) [OF this] h show False by (simp add: buy_item_def wait_def)
    qed
  qed
  with assms show False by simp
qed

subsection \<open>Termination and the strategies\<close>

text \<open>
  C22. An item that costs nothing makes \<open>simulate_clicker\<close> run forever:
  with the cursor strategy and a free cursor the loop buys it again and again
  without the time advancing.
\<close>

theorem simulate_clicker_zero_cost_diverges:
  "simulate_clicker (new_build_info (Some [(''Cursor'', 0, 1)]) BUILD_GROWTH) 1 strategy_cursor_broken = None"
  using zero_cost_loop [of new_clicker_state] by (simp add: simulate_clicker_def new_clicker_state_def)

lemma item_lookup:
  assumes "\<forall>(n, c, p) \<in> set (info bi). 0 < c" "it \<in> set (build_items bi)"
  shows "\<exists>c q. get_cost bi it = Inr c \<and> 0 < c \<and> cps_ratio bi it = Inr q"
proof -
  from assms(2) obtain c p where m: "map_of (info bi) it = Some (c, p)"
    by (auto simp: build_items_def dest: weak_map_of_SomeI)
  from map_of_SomeD [OF m] assms(1) have "0 < c" by auto
  with m show ?thesis by (simp add: get_cost_def build_get_cps_def cps_ratio_def)
qed

lemma best_ratio_loop_none:
  assumes "\<forall>it \<in> set xs. \<exists>c q. get_cost bi it = Inr c \<and> cps_ratio bi it = Inr q"
  shows "\<exists>b' r'. best_ratio_loop bi E (b, r) xs = Inr (b', r') \<and>
           (b' = None \<longleftrightarrow> b = None \<and> (\<forall>it \<in> set xs. \<forall>c. get_cost bi it = Inr c \<longrightarrow> E < c))"
  using assms
proof (induction xs arbitrary: b r)
  case Nil
  then show ?case by simp
next
  case (Cons it xs)
  from Cons.prems obtain c q where cq: "get_cost bi it = Inr c" "cps_ratio bi it = Inr q" by auto
  have rest: "\<forall>it \<in> set xs. \<exists>c q. get_cost bi it = Inr c \<and> cps_ratio bi it = Inr q" using Cons.prems by simp
  note IH = Cons.IH [OF rest]
  show ?case
  proof (cases "E < c")
    case True
    with IH [of b r] cq show ?thesis by auto
  next
    case False
    from IH [of "Some it" q] obtain b1 r1 where
      l1: "best_ratio_loop bi E (Some it, q) xs = Inr (b1, r1)" "b1 \<noteq> None" by force
    from IH [of b r] obtain b2 r2 where
      l2: "best_ratio_loop bi E (b, r) xs = Inr (b2, r2)"
      "b2 = None \<longleftrightarrow> b = None \<and> (\<forall>it \<in> set xs. \<forall>c. get_cost bi it = Inr c \<longrightarrow> E < c)" by blast
    show ?thesis
    proof (cases "b = None \<or> r < q")
      case True
      then have "best_ratio_loop bi E (b, r) (it # xs) = Inr (b1, r1)"
        using False cq l1 by auto
      with l1(2) False cq show ?thesis by auto
    next
      case nb: False
      then have "best_ratio_loop bi E (b, r) (it # xs) = Inr (b2, r2)"
        using False cq l2(1) by auto
      with l2(2) nb show ?thesis by auto
    qed
  qed
qed

lemma best_ratio_loop_chosen:
  "best_ratio_loop bi E (b, r) xs = Inr (b', r') \<Longrightarrow>
   (b' = b \<and> r' = r) \<or> (\<exists>it c. b' = Some it \<and> it \<in> set xs \<and> get_cost bi it = Inr c \<and> c \<le> E \<and> cps_ratio bi it = Inr r')"
proof (induction bi E "(b, r)" xs arbitrary: b r rule: best_ratio_loop.induct)
  case (1 bi E acc)
  then show ?case by simp
next
  case (2 bi E best_ratio_item best_ratio item items)
  from "2.prems" obtain cost where cost: "get_cost bi item = Inr cost" by (auto simp: err_bind_Inr_iff)
  show ?case
  proof (cases "E < cost")
    case True
    with "2.prems" cost have "best_ratio_loop bi E (best_ratio_item, best_ratio) items = Inr (b', r')" by simp
    from "2.hyps"(1) [OF True this] show ?thesis by auto
  next
    case False
    from "2.prems" cost False obtain q where q: "cps_ratio bi item = Inr q"
      by (auto simp: err_bind_Inr_iff split: if_splits)
    consider (first) "best_ratio_item = None" | (better) "best_ratio_item \<noteq> None" "best_ratio < q"
      | (worse) "best_ratio_item \<noteq> None" "\<not> best_ratio < q" by blast
    then show ?thesis
    proof cases
      case first
      with "2.prems" cost False q have l: "best_ratio_loop bi E (Some item, q) items = Inr (b', r')" by simp
      from "2.hyps"(2) [OF False first l] cost q False show ?thesis by auto
    next
      case better
      with "2.prems" cost False q have l: "best_ratio_loop bi E (Some item, q) items = Inr (b', r')" by simp
      from "2.hyps"(3) [OF False better l] cost q False show ?thesis by auto
    next
      case worse
      with "2.prems" cost False q have l: "best_ratio_loop bi E (best_ratio_item, best_ratio) items = Inr (b', r')"
        by simp
      from "2.hyps"(4) [OF False worse l] show ?thesis by auto
    qed
  qed
qed

lemma best_ratio_loop_max:
  "best_ratio_loop bi E (b, r) xs = Inr (b', r') \<Longrightarrow>
   (b \<noteq> None \<longrightarrow> r \<le> r') \<and>
   (\<forall>it \<in> set xs. \<forall>c q. get_cost bi it = Inr c \<and> c \<le> E \<and> cps_ratio bi it = Inr q \<longrightarrow> q \<le> r')"
proof (induction bi E "(b, r)" xs arbitrary: b r rule: best_ratio_loop.induct)
  case (1 bi E acc)
  then show ?case by simp
next
  case (2 bi E best_ratio_item best_ratio item items)
  from "2.prems" obtain cost where cost: "get_cost bi item = Inr cost" by (auto simp: err_bind_Inr_iff)
  show ?case
  proof (cases "E < cost")
    case True
    with "2.prems" cost have "best_ratio_loop bi E (best_ratio_item, best_ratio) items = Inr (b', r')" by simp
    from "2.hyps"(1) [OF True this] True cost show ?thesis by auto
  next
    case False
    from "2.prems" cost False obtain q where q: "cps_ratio bi item = Inr q"
      by (auto simp: err_bind_Inr_iff split: if_splits)
    consider (first) "best_ratio_item = None" | (better) "best_ratio_item \<noteq> None" "best_ratio < q"
      | (worse) "best_ratio_item \<noteq> None" "\<not> best_ratio < q" by blast
    then show ?thesis
    proof cases
      case first
      with "2.prems" cost False q have l: "best_ratio_loop bi E (Some item, q) items = Inr (b', r')" by simp
      from "2.hyps"(2) [OF False first l] cost q False first show ?thesis by auto
    next
      case better
      with "2.prems" cost False q have l: "best_ratio_loop bi E (Some item, q) items = Inr (b', r')" by simp
      from "2.hyps"(3) [OF False better l] cost q False better show ?thesis by auto
    next
      case worse
      with "2.prems" cost False q have l: "best_ratio_loop bi E (best_ratio_item, best_ratio) items = Inr (b', r')"
        by simp
      from "2.hyps"(4) [OF False worse l] cost q worse show ?thesis by auto
    qed
  qed
qed

text \<open>
  C23. When every cost is positive, \<open>strategy_best_cps_cost_ratio\<close> returns
  \<open>None\<close> exactly when no item is affordable with the cookies at the end of
  the time left, and otherwise an affordable item whose CPS per cost is at
  least that of every affordable item.
\<close>

theorem strategy_best_ratio:
  assumes "\<forall>(n, c, p) \<in> set (info bi). 0 < c"
  shows "\<exists>r. strategy_best_cps_cost_ratio ck cp time_left bi = Inr r \<and>
           (r = None \<longleftrightarrow> (\<forall>it \<in> set (build_items bi). \<forall>c. get_cost bi it = Inr c \<longrightarrow> ck + cp * time_left < c)) \<and>
           (\<forall>it. r = Some it \<longrightarrow> it \<in> set (build_items bi) \<and>
              (\<exists>c q. get_cost bi it = Inr c \<and> c \<le> ck + cp * time_left \<and> cps_ratio bi it = Inr q \<and>
                 (\<forall>it' \<in> set (build_items bi). \<forall>c' q'.
                    get_cost bi it' = Inr c' \<and> c' \<le> ck + cp * time_left \<and> cps_ratio bi it' = Inr q' \<longrightarrow> q' \<le> q)))"
proof -
  have all: "\<forall>it \<in> set (build_items bi). \<exists>c q. get_cost bi it = Inr c \<and> cps_ratio bi it = Inr q"
    using item_lookup [OF assms] by blast
  from best_ratio_loop_none [OF all, of "ck + cp * time_left" None 0] obtain b' r' where
    l: "best_ratio_loop bi (ck + cp * time_left) (None, 0) (build_items bi) = Inr (b', r')"
    "b' = None \<longleftrightarrow> (\<forall>it \<in> set (build_items bi). \<forall>c. get_cost bi it = Inr c \<longrightarrow> ck + cp * time_left < c)"
    by auto
  note ch = best_ratio_loop_chosen [OF l(1)] and mx = best_ratio_loop_max [OF l(1)]
  have str: "strategy_best_cps_cost_ratio ck cp time_left bi = Inr b'"
    using l(1) by (simp add: strategy_best_cps_cost_ratio_def)
  have "\<forall>it. b' = Some it \<longrightarrow> it \<in> set (build_items bi) \<and>
          (\<exists>c q. get_cost bi it = Inr c \<and> c \<le> ck + cp * time_left \<and> cps_ratio bi it = Inr q \<and>
             (\<forall>it' \<in> set (build_items bi). \<forall>c' q'.
                get_cost bi it' = Inr c' \<and> c' \<le> ck + cp * time_left \<and> cps_ratio bi it' = Inr q' \<longrightarrow> q' \<le> q))"
  proof (intro allI impI)
    fix it
    assume b: "b' = Some it"
    with ch obtain c where c: "it \<in> set (build_items bi)" "get_cost bi it = Inr c" "c \<le> ck + cp * time_left"
      "cps_ratio bi it = Inr r'" by auto
    with mx show "it \<in> set (build_items bi) \<and>
          (\<exists>c q. get_cost bi it = Inr c \<and> c \<le> ck + cp * time_left \<and> cps_ratio bi it = Inr q \<and>
             (\<forall>it' \<in> set (build_items bi). \<forall>c' q'.
                get_cost bi it' = Inr c' \<and> c' \<le> ck + cp * time_left \<and> cps_ratio bi it' = Inr q' \<longrightarrow> q' \<le> q))"
      by blast
  qed
  with str l(2) show ?thesis by blast
qed

text \<open>
  C24. A strategy that names an item the build information does not have
  makes \<open>simulate_clicker\<close> raise \<open>KeyError\<close> (from \<open>get_cost\<close>) at the
  first pass of the loop.
\<close>

theorem simulate_clicker_key_error:
  assumes "0 \<le> duration" "item \<notin> set (build_items build_info)"
  shows "simulate_clicker build_info duration (\<lambda>cookies_now cps_now time_left bi. Some item) = Some (Inl KeyError)"
proof -
  have "map_of (info build_info) item = None"
    using assms(2) by (simp add: build_items_def map_of_eq_None_iff)
  then have "get_cost build_info item = Inl KeyError" by (simp add: get_cost_def)
  then have "simulate_loop (\<lambda>cookies_now cps_now time_left bi. Some item) duration build_info new_clicker_state =
               Some (Inl KeyError)"
    using assms(1) by (subst simulate_loop.simps) (simp add: get_time_def new_clicker_state_def)
  then show ?thesis by (simp add: simulate_clicker_def)
qed

text \<open>
  C25. The module's \<open>run()\<close> returns normally: simulating the cursor
  strategy on the default build information for \<open>SIM_TIME\<close> seconds raises
  no exception and ends at \<open>SIM_TIME\<close>, since every cost is at least 15,
  the cursor is always an item of the table and the CPS stays at least 1.
\<close>

theorem run_clicker_ends:
  "\<exists>s. run_clicker = Some (Inr s) \<and> get_time s = SIM_TIME"
proof -
  let ?bi = "new_build_info None BUILD_GROWTH"
  have ok: "bi_ok 15 ?bi" by (simp add: bi_ok_def new_build_info_def BUILD_GROWTH_def)
  have K: "{''Cursor''} \<subseteq> set (build_items ?bi)" by (simp add: build_items_def new_build_info_def)
  have known: "\<forall>ck cp tl b item. strategy_cursor_broken ck cp tl b = Some item \<longrightarrow> item \<in> {''Cursor''}"
    by (simp add: strategy_cursor_broken_def)
  obtain s0 bi0 where l: "simulate_loop strategy_cursor_broken SIM_TIME ?bi new_clicker_state = Some (Inr (s0, bi0))"
    using simulate_loop_Inr [OF _ known, of 15 "(?bi, new_clicker_state)" SIM_TIME] ok K
    by (auto simp: new_clicker_state_def)
  have "0 \<le> current_time s0 \<and> current_time s0 \<le> max SIM_TIME 0"
    using simulate_loop_time [OF l] by (simp add: new_clicker_state_def)
  then show ?thesis
    using l by (auto simp: run_clicker_def run_strategy_def simulate_clicker_def get_time_def time_wait SIM_TIME_def)
qed

end
