(* ===== verification/Game2048.thy ===== *)
theory Game2048
  imports Merge
begin

text \<open>
  The game class \<open>TwentyFortyEight\<close> of \<open>src/2048.py\<close>. Its \<open>slide_list\<close>
  and \<open>merge\<close> (lines 27-69) are line-for-line copies of those of
  \<open>src/merge.py\<close>, so the game uses \<open>Merge.merge\<close>. The object is the record
  \<open>twenty_forty_eight\<close>; its dictionaries \<open>_initials\<close> and \<open>_loop_ranges\<close>
  and the constant \<open>OFFSETS\<close> are maps keyed by the integer directions, and a
  missing key raises \<open>KeyError\<close>. Coordinates are Python integers, read and
  written with Python's indexing (a negative index counts from the end).

  The game draws from Python's \<open>random\<close> module. The model passes the random
  source explicitly: an \<open>rng\<close> is the stream of values the generator will
  produce, and \<open>random.choice(seq)\<close> takes the element of \<open>seq\<close> that the
  next value selects, raising \<open>IndexError\<close> on an empty sequence. Every
  sequence of choices the generator can make is one stream, so a lemma that
  holds for every stream holds for every run of the game.
\<close>

section \<open>Definitions\<close>

definition UP :: int where "UP = 1"
definition DOWN :: int where "DOWN = 2"
definition LEFT :: int where "LEFT = 3"
definition RIGHT :: int where "RIGHT = 4"

lemmas direction_defs = UP_def DOWN_def LEFT_def RIGHT_def

definition OFFSETS :: "int \<rightharpoonup> int \<times> int" where
  "OFFSETS = [UP \<mapsto> (1, 0), DOWN \<mapsto> (-1, 0), LEFT \<mapsto> (0, 1), RIGHT \<mapsto> (0, -1)]"

text \<open>\<open>d[k]\<close> for a Python dictionary \<open>d\<close>.\<close>

definition dict_get :: "('k \<rightharpoonup> 'v) \<Rightarrow> 'k \<Rightarrow> 'v result" where
  "dict_get d k = (case d k of Some v \<Rightarrow> Inr v | None \<Rightarrow> Inl KeyError)"

subsection \<open>Python indexing and the random source\<close>

text \<open>The position that a Python index \<open>i\<close> denotes in a list of length \<open>n\<close>.\<close>

definition py_index :: "nat \<Rightarrow> int \<Rightarrow> nat result" where
  "py_index n i =
     (if 0 \<le> i \<and> i < int n then Inr (nat i)
      else if - int n \<le> i \<and> i < 0 then Inr (nat (int n + i))
      else Inl IndexError)"

definition py_get2 :: "'a list list \<Rightarrow> int \<times> int \<Rightarrow> 'a result" where
  "py_get2 xss p =
     err_bind (py_index (length xss) (fst p)) (\<lambda>r.
       err_bind (py_index (length (xss ! r)) (snd p)) (\<lambda>c. Inr (xss ! r ! c)))"

definition py_set2 :: "'a list list \<Rightarrow> int \<times> int \<Rightarrow> 'a \<Rightarrow> 'a list list result" where
  "py_set2 xss p v =
     err_bind (py_index (length xss) (fst p)) (\<lambda>r.
       err_bind (py_index (length (xss ! r)) (snd p)) (\<lambda>c. Inr (xss[r := (xss ! r)[c := v]])))"

text \<open>
  \<open>random.choice(seq)\<close> (Python 2: \<open>seq[int(random() * len(seq))]\<close>): the
  next value of the stream is consumed and selects the element; an empty
  sequence raises \<open>IndexError\<close>.
\<close>

definition random_choice :: "'a list \<Rightarrow> rng \<Rightarrow> 'a result \<times> rng" where
  "random_choice seq rnd =
     ((if seq = [] then Inl IndexError else Inr (seq ! (rnd 0 mod length seq))), \<lambda>i. rnd (Suc i))"

subsection \<open>The game object\<close>

record twenty_forty_eight =
  game_height :: nat
  game_width :: nat
  game_grid :: "int list list"
  initials :: "int \<rightharpoonup> (int \<times> int) list"
  loop_ranges :: "int \<rightharpoonup> nat"

text \<open>Lines 86-101: the first cell of every line, per direction.\<close>

definition initials_table :: "nat \<Rightarrow> nat \<Rightarrow> int \<rightharpoonup> (int \<times> int) list" where
  "initials_table h w =
     [UP \<mapsto> map (\<lambda>i. (0, int i)) [0..<w],
      DOWN \<mapsto> map (\<lambda>i. (int h - 1, int i)) [0..<w],
      LEFT \<mapsto> map (\<lambda>i. (int i, 0)) [0..<h],
      RIGHT \<mapsto> map (\<lambda>i. (int i, int w - 1)) [0..<h]]"

definition create_initials_cache :: "twenty_forty_eight \<Rightarrow> twenty_forty_eight" where
  "create_initials_cache g = g\<lparr>initials := initials_table (game_height g) (game_width g)\<rparr>"

text \<open>Lines 104-114: the length of every line, per direction.\<close>

definition ranges_table :: "nat \<Rightarrow> nat \<Rightarrow> int \<rightharpoonup> nat" where
  "ranges_table h w = [UP \<mapsto> h, DOWN \<mapsto> h, LEFT \<mapsto> w, RIGHT \<mapsto> w]"

definition create_ranges_cache :: "twenty_forty_eight \<Rightarrow> twenty_forty_eight" where
  "create_ranges_cache g = g\<lparr>loop_ranges := ranges_table (game_height g) (game_width g)\<rparr>"

text \<open>Lines 227-240.\<close>

definition set_tile :: "twenty_forty_eight \<Rightarrow> int \<Rightarrow> int \<Rightarrow> int \<Rightarrow> twenty_forty_eight result" where
  "set_tile g row col value =
     err_bind (py_set2 (game_grid g) (row, col) value) (\<lambda>grid. Inr (g\<lparr>game_grid := grid\<rparr>))"

definition get_tile :: "twenty_forty_eight \<Rightarrow> int \<Rightarrow> int \<Rightarrow> int result" where
  "get_tile g row col = py_get2 (game_grid g) (row, col)"

text \<open>
  Lines 191-203: up to \<open>height * width\<close> random probes for a cell holding
  \<open>0\<close>. The \<open>try\<close> turns the \<open>IndexError\<close> of a probe (an empty \<open>range\<close>,
  or a grid shorter than its dimensions) into \<open>None\<close>, as does running out
  of probes. The result \<open>[row, col]\<close> is the pair \<open>(row, col)\<close>.
\<close>

fun find_empty_loop :: "nat \<Rightarrow> nat \<Rightarrow> nat \<Rightarrow> int list list \<Rightarrow> rng \<Rightarrow> (int \<times> int) option \<times> rng" where
  "find_empty_loop 0 h w grid rnd = (None, rnd)"
| "find_empty_loop (Suc k) h w grid rnd =
     (case random_choice (map int [0..<h]) rnd of
        (Inl e, rnd1) \<Rightarrow> (None, rnd1)
      | (Inr random_row, rnd1) \<Rightarrow>
          (case random_choice (map int [0..<w]) rnd1 of
             (Inl e, rnd2) \<Rightarrow> (None, rnd2)
           | (Inr random_col, rnd2) \<Rightarrow>
               (case py_get2 grid (random_row, random_col) of
                  Inl e \<Rightarrow> (None, rnd2)
                | Inr random_sq \<Rightarrow>
                    if random_sq = 0 then (Some (random_row, random_col), rnd2)
                    else find_empty_loop k h w grid rnd2)))"

definition find_empty_coords :: "twenty_forty_eight \<Rightarrow> rng \<Rightarrow> (int \<times> int) option \<times> rng" where
  "find_empty_coords g rnd =
     find_empty_loop (game_height g * game_width g) (game_height g) (game_width g) (game_grid g) rnd"

text \<open>Lines 206-224: a \<open>2\<close> nine times in ten, else a \<open>4\<close>, in the cell found.\<close>

definition value_dist :: "int list" where
  "value_dist = replicate 90 2 @ replicate 10 4"

definition new_tile :: "twenty_forty_eight \<Rightarrow> rng \<Rightarrow> (string option \<times> twenty_forty_eight \<times> rng) result" where
  "new_tile g rnd =
     (case find_empty_coords g rnd of
        (Some (random_row, random_col), rnd1) \<Rightarrow>
          (case random_choice value_dist rnd1 of
             (Inl e, rnd2) \<Rightarrow> Inl e
           | (Inr v, rnd2) \<Rightarrow> err_bind (set_tile g random_row random_col v) (\<lambda>g'. Inr (None, g', rnd2)))
      | (None, rnd1) \<Rightarrow> Inr (Some ''Game is over!!!'', g, rnd1))"

text \<open>Lines 117-128: an empty grid and two new tiles.\<close>

definition reset :: "twenty_forty_eight \<Rightarrow> rng \<Rightarrow> (twenty_forty_eight \<times> rng) result" where
  "reset g rnd =
     (let g0 = g\<lparr>game_grid := replicate (game_height g) (replicate (game_width g) 0)\<rparr>
      in err_bind (new_tile g0 rnd) (\<lambda>(_, g1, rnd1).
           err_bind (new_tile g1 rnd1) (\<lambda>(_, g2, rnd2). Inr (g2, rnd2))))"

text \<open>Lines 78-83; the caches are created after \<open>reset\<close>, which does not read them.\<close>

definition init_game :: "nat \<Rightarrow> nat \<Rightarrow> rng \<Rightarrow> (twenty_forty_eight \<times> rng) result" where
  "init_game grid_height grid_width rnd =
     err_bind (reset \<lparr>game_height = grid_height, game_width = grid_width, game_grid = [],
                      initials = Map.empty, loop_ranges = Map.empty\<rparr> rnd)
       (\<lambda>(g, rnd1). Inr (create_ranges_cache (create_initials_cache g), rnd1))"

text \<open>Lines 139-150.\<close>

definition get_grid_height :: "twenty_forty_eight \<Rightarrow> nat" where
  "get_grid_height g = game_height g"

definition get_grid_width :: "twenty_forty_eight \<Rightarrow> nat" where
  "get_grid_width g = game_width g"

text \<open>Lines 153-164: \<open>loop_range\<close> cells from \<open>coord\<close>, \<open>offset\<close> apart.\<close>

primrec gen_offset_list :: "int \<times> int \<Rightarrow> int \<times> int \<Rightarrow> nat \<Rightarrow> (int \<times> int) list" where
  "gen_offset_list this_coord offset 0 = []"
| "gen_offset_list this_coord offset (Suc n) =
     this_coord # gen_offset_list (fst this_coord + fst offset, snd this_coord + snd offset) offset n"

text \<open>Lines 183-184: \<open>merged_vals[index]\<close> written to \<open>offset_coords[index]\<close>.\<close>

definition write_back :: "(int \<times> int) list \<Rightarrow> int list \<Rightarrow> int list list \<Rightarrow> int list list result" where
  "write_back offset_coords merged_vals grid =
     fold_err (\<lambda>index grid.
                 err_bind (list_get offset_coords index) (\<lambda>offset_coord.
                   py_set2 grid offset_coord (merged_vals ! index)))
       [0..<length merged_vals] grid"

text \<open>Lines 178-184: one line of the move, from its first cell.\<close>

definition move_line :: "twenty_forty_eight \<Rightarrow> int \<Rightarrow> int \<times> int \<Rightarrow> int \<times> int \<Rightarrow> int list list \<Rightarrow>
                         int list list result" where
  "move_line g direction offset init_coord grid =
     err_bind (dict_get (loop_ranges g) direction) (\<lambda>loop_range.
       (let offset_coords = gen_offset_list init_coord offset loop_range
        in err_bind (map_err (py_get2 grid) offset_coords) (\<lambda>temp_vals.
             write_back offset_coords (merge temp_vals) grid)))"

text \<open>
  Lines 173-184: every line of the direction merged, before the new tile.
  The grid of the object is updated in place, so the model threads it.
\<close>

definition move_lines :: "twenty_forty_eight \<Rightarrow> int \<Rightarrow> int list list result" where
  "move_lines g direction =
     err_bind (dict_get OFFSETS direction) (\<lambda>offset.
       err_bind (dict_get (initials g) direction) (\<lambda>init_coords.
         fold_err (move_line g direction offset) init_coords (game_grid g)))"

text \<open>
  Lines 167-188. \<open>str(self._grid)\<close> before and after are compared;
  \<open>str\<close> is injective on lists of lists of integers, so this is equality of
  the grids.
\<close>

definition move :: "twenty_forty_eight \<Rightarrow> int \<Rightarrow> rng \<Rightarrow> (twenty_forty_eight \<times> rng) result" where
  "move g direction rnd =
     (let before_move = game_grid g
      in err_bind (move_lines g direction) (\<lambda>grid.
           (let g1 = g\<lparr>game_grid := grid\<rparr>
            in if before_move \<noteq> grid
               then err_bind (new_tile g1 rnd) (\<lambda>(_, g2, rnd2). Inr (g2, rnd2))
               else Inr (g1, rnd))))"

subsection \<open>The test suite\<close>

text \<open>
  \<open>suite.run_test(actual, expected, name)\<close> of \<open>simpletest\<close>: whether the
  value equals the expected one; evaluating \<open>actual\<close> may raise.
\<close>

definition suite_check :: "'a result \<Rightarrow> 'a \<Rightarrow> bool result" where
  "suite_check actual expected = err_bind actual (\<lambda>a. Inr (a = expected))"

text \<open>
  Lines 243-305: the outcomes of the twenty checks in order, or the exception
  that stops the suite. The two games are built with the random source, which
  \<open>reset\<close> draws from again; the \<open>print\<close> of line 279 is left out.
\<close>

definition run_test_suite_2048 :: "rng \<Rightarrow> bool list result" where
  "run_test_suite_2048 rnd =
     err_bind (init_game 4 4 rnd) (\<lambda>(test_obj_one, rnd1).
       err_bind (reset test_obj_one rnd1) (\<lambda>(test_obj_one', rnd2).
         err_bind (init_game 5 4 rnd2) (\<lambda>(test_obj_two, rnd3).
           err_bind (set_tile test_obj_two 4 3 10) (\<lambda>test_obj_two'.
             err_bind (set_tile test_obj_two' 3 3 11) (\<lambda>test_obj_two''.
               map_err id
                 [suite_check (Inr (merge [2, 0, 2, 2])) [4, 2, 0, 0],
                  suite_check (Inr (merge [2, 0, 2, 4])) [4, 4, 0, 0],
                  suite_check (Inr (merge [0, 0, 2, 2])) [4, 0, 0, 0],
                  suite_check (Inr (merge [2, 2, 0, 0])) [4, 0, 0, 0],
                  suite_check (Inr (merge [2, 2, 2, 2, 2])) [4, 4, 2, 0, 0],
                  suite_check (Inr (merge [8, 16, 16, 8])) [8, 32, 8, 0],
                  suite_check (dict_get (initials (create_initials_cache test_obj_one)) UP)
                    [(0, 0), (0, 1), (0, 2), (0, 3)],
                  suite_check (dict_get (initials (create_initials_cache test_obj_one)) DOWN)
                    [(3, 0), (3, 1), (3, 2), (3, 3)],
                  suite_check (dict_get (initials (create_initials_cache test_obj_one)) RIGHT)
                    [(0, 3), (1, 3), (2, 3), (3, 3)],
                  suite_check (dict_get (initials (create_initials_cache test_obj_one)) LEFT)
                    [(0, 0), (1, 0), (2, 0), (3, 0)],
                  suite_check (dict_get (loop_ranges (create_ranges_cache test_obj_one)) UP) 4,
                  suite_check (dict_get (loop_ranges (create_ranges_cache test_obj_one)) DOWN) 4,
                  suite_check (dict_get (loop_ranges (create_ranges_cache test_obj_one)) RIGHT) 4,
                  suite_check (dict_get (loop_ranges (create_ranges_cache test_obj_one)) LEFT) 4,
                  suite_check (Inr (get_grid_height test_obj_one')) 4,
                  suite_check (Inr (get_grid_width test_obj_one')) 4,
                  suite_check (Inr (get_grid_height test_obj_two)) 5,
                  suite_check (Inr (get_grid_width test_obj_two)) 4,
                  suite_check (get_tile test_obj_two' 4 3) 10,
                  suite_check (get_tile test_obj_two'' 3 3) 11])))))"

end
