(* ===== verification/Game2048_Move.thy ===== *)
theory Game2048_Move
  imports Game2048
begin

text \<open>
  Correctness of \<open>TwentyFortyEight.move\<close> (\<open>src/2048.py\<close>, lines 153-188). The
  loop over the first cells of the lines, each line read through
  \<open>gen_offset_list\<close>, merged and written back, is proved to compute the
  abstract move \<open>shift_board\<close> (every row or column merged towards the side of
  the move); the whole \<open>move\<close> then leaves that board, or adds one tile to an
  empty cell of it when it differs from the old board. Along every sequence of
  \<open>reset\<close> and \<open>move\<close> calls the game stays well formed and every tile is
  \<open>0\<close> or a power of two. \<open>new_tile\<close> gives up after \<open>height * width\<close>
  random probes even when the grid has empty cells.
\<close>

section \<open>Specification and invariants\<close>

text \<open>The natural-number coordinates of the model as Python integers.\<close>

definition ipos :: "pos \<Rightarrow> int \<times> int" where
  "ipos p = (int (fst p), int (snd p))"

text \<open>Writing a line back: the values land on the line's cells.\<close>

definition write_line :: "pos list \<Rightarrow> int list \<Rightarrow> nat list \<Rightarrow> int list list \<Rightarrow> int list list" where
  "write_line L vs js b = fold (\<lambda>j b. upd2 b (L ! j) (vs ! j)) js b"

text \<open>
  The value a cell receives from a pass over the lines \<open>Ls\<close>: the merged line
  that contains it, at its position in the line; a cell on no line keeps its
  value.
\<close>

definition line_value :: "pos list list \<Rightarrow> int list list \<Rightarrow> pos \<Rightarrow> int" where
  "line_value Ls b q =
     (case find (\<lambda>L. q \<in> set L) Ls of
        None \<Rightarrow> at2 b q
      | Some L \<Rightarrow> the (map_of (zip L (merge (map (at2 b) L))) q))"

text \<open>
  The abstract move: every row (for \<open>LEFT\<close> and \<open>RIGHT\<close>) or column (for
  \<open>UP\<close> and \<open>DOWN\<close>) merged towards the side the tiles move to; a merge
  towards the end of a line is the merge of the reversed line, reversed.
\<close>

definition column :: "int list list \<Rightarrow> nat \<Rightarrow> int list" where
  "column b c = map (\<lambda>row. row ! c) b"

definition cols_to_rows :: "nat \<Rightarrow> int list list \<Rightarrow> int list list" where
  "cols_to_rows h cols = map (\<lambda>r. map (\<lambda>col. col ! r) cols) [0..<h]"

definition shift_board :: "nat \<Rightarrow> nat \<Rightarrow> int \<Rightarrow> int list list \<Rightarrow> int list list" where
  "shift_board h w d b =
     (if d = LEFT then map merge b
      else if d = RIGHT then map (\<lambda>row. rev (merge (rev row))) b
      else if d = UP then cols_to_rows h (map (\<lambda>c. merge (column b c)) [0..<w])
      else cols_to_rows h (map (\<lambda>c. rev (merge (rev (column b c)))) [0..<w]))"

text \<open>The cells of the lines of a direction, each from its first cell on.\<close>

definition dir_lines :: "nat \<Rightarrow> nat \<Rightarrow> int \<Rightarrow> pos list list" where
  "dir_lines h w d =
     (if d = UP then map (\<lambda>c. map (\<lambda>k. (k, c)) [0..<h]) [0..<w]
      else if d = DOWN then map (\<lambda>c. map (\<lambda>k. (h - 1 - k, c)) [0..<h]) [0..<w]
      else if d = LEFT then map (\<lambda>r. map (\<lambda>k. (r, k)) [0..<w]) [0..<h]
      else map (\<lambda>r. map (\<lambda>k. (r, w - 1 - k)) [0..<w]) [0..<h])"

text \<open>A constructed game: a \<open>height \<times> width\<close> grid and both caches.\<close>

definition game_wf :: "twenty_forty_eight \<Rightarrow> bool" where
  "game_wf g \<longleftrightarrow> rect (game_height g) (game_width g) (game_grid g) \<and>
     initials g = initials_table (game_height g) (game_width g) \<and>
     loop_ranges g = ranges_table (game_height g) (game_width g)"

text \<open>What \<open>new_tile\<close> may do to a grid: nothing, or a \<open>2\<close> or \<open>4\<close> in an empty cell.\<close>

definition tile_added :: "nat \<Rightarrow> nat \<Rightarrow> int list list \<Rightarrow> int list list \<Rightarrow> bool" where
  "tile_added h w b b' \<longleftrightarrow>
     b' = b \<or> (\<exists>r c v. r < h \<and> c < w \<and> b ! r ! c = 0 \<and> v \<in> {2, 4} \<and> b' = upd2 b (r, c) v)"

text \<open>The tiles of the game: empty, or a power of two from \<open>2\<close> on.\<close>

definition tile_ok :: "int \<Rightarrow> bool" where
  "tile_ok x \<longleftrightarrow> x = 0 \<or> (\<exists>k. 0 < k \<and> x = 2 ^ k)"

definition tiles_ok :: "nat \<Rightarrow> nat \<Rightarrow> int list list \<Rightarrow> bool" where
  "tiles_ok h w b \<longleftrightarrow> (\<forall>r < h. \<forall>c < w. tile_ok (b ! r ! c))"

text \<open>
  The games a player reaches: a constructed game, then any sequence of
  \<open>reset\<close> and \<open>move\<close> calls (what \<open>poc_2048_gui\<close> calls), with any random
  source.
\<close>

inductive reachable_game :: "twenty_forty_eight \<Rightarrow> bool" where
  init: "init_game h w rnd = Inr (g, rnd') \<Longrightarrow> reachable_game g"
| reset: "reachable_game g \<Longrightarrow> reset g rnd = Inr (g', rnd') \<Longrightarrow> reachable_game g'"
| move: "reachable_game g \<Longrightarrow> move g d rnd = Inr (g', rnd') \<Longrightarrow> reachable_game g'"

section \<open>Lemmas\<close>

lemma py_index_nat [simp]: "i < n \<Longrightarrow> py_index n (int i) = Inr i"
  by (simp add: py_index_def)

lemma gen_offset_list_eq:
  "gen_offset_list (a, b) (da, db) n = map (\<lambda>k. (a + int k * da, b + int k * db)) [0..<n]"
proof (induction n arbitrary: a b)
  case 0
  then show ?case by simp
next
  case (Suc n)
  have "map (\<lambda>k. (a + int k * da, b + int k * db)) [0..<Suc n] =
        (a, b) # map (\<lambda>k. (a + da + int k * da, b + db + int k * db)) [0..<n]"
    by (simp add: upt_conv_Cons map_Suc_upt [symmetric] o_def algebra_simps del: upt_Suc)
  with Suc show ?case by simp
qed

lemma py_get2_in:
  "rect h w b \<Longrightarrow> in_bounds h w p \<Longrightarrow> py_get2 b (ipos p) = Inr (at2 b p)"
  by (simp add: py_get2_def rect_def in_bounds_def ipos_def)

lemma py_set2_in:
  "rect h w b \<Longrightarrow> in_bounds h w p \<Longrightarrow> py_set2 b (ipos p) v = Inr (upd2 b p v)"
  by (simp add: py_set2_def rect_def in_bounds_def upd2_def ipos_def)

lemma map_err_py_get2:
  "rect h w b \<Longrightarrow> \<forall>p \<in> set L. in_bounds h w p \<Longrightarrow> map_err (py_get2 b) (map ipos L) = Inr (map (at2 b) L)"
  by (induction L) (simp_all add: py_get2_in)

lemma write_back_fold:
  assumes "rect h w b" "\<forall>p \<in> set L. in_bounds h w p" "\<forall>j \<in> set js. j < length L"
  shows "fold_err (\<lambda>index grid. err_bind (list_get (map ipos L) index) (\<lambda>offset_coord.
                   py_set2 grid offset_coord (vs ! index))) js b = Inr (write_line L vs js b)
         \<and> rect h w (write_line L vs js b)"
  using assms
proof (induction js arbitrary: b)
  case Nil
  then show ?case by (simp add: write_line_def)
next
  case (Cons j js)
  have j: "j < length L" using Cons.prems(3) by simp
  then have p: "in_bounds h w (L ! j)" using Cons.prems(2) by simp
  have step: "err_bind (list_get (map ipos L) j) (\<lambda>oc. py_set2 b oc (vs ! j)) = Inr (upd2 b (L ! j) (vs ! j))"
    using j py_set2_in [OF Cons.prems(1) p] by (simp add: list_get_def)
  have r1: "rect h w (upd2 b (L ! j) (vs ! j))" using Cons.prems(1) by (rule rect_upd2)
  from Cons.IH [OF r1 Cons.prems(2)] Cons.prems(3) step show ?case by (simp add: write_line_def)
qed

lemma at2_write_line:
  assumes "rect h w b" "\<forall>p \<in> set L. in_bounds h w p" "distinct L" "\<forall>j \<in> set js. j < length L"
    "in_bounds h w q" "length vs = length L"
  shows "at2 (write_line L vs js b) q =
         (if q \<in> set (map (nth L) js) then the (map_of (zip L vs) q) else at2 b q)"
  using assms
proof (induction js arbitrary: b)
  case Nil
  then show ?case by (simp add: write_line_def)
next
  case (Cons j js)
  have j: "j < length L" using Cons.prems(4) by simp
  then have p: "in_bounds h w (L ! j)" using Cons.prems(2) by simp
  have r1: "rect h w (upd2 b (L ! j) (vs ! j))" using Cons.prems(1) by (rule rect_upd2)
  have ih: "at2 (write_line L vs js (upd2 b (L ! j) (vs ! j))) q =
            (if q \<in> set (map (nth L) js) then the (map_of (zip L vs) q) else at2 (upd2 b (L ! j) (vs ! j)) q)"
    using Cons.IH [OF r1 Cons.prems(2,3)] Cons.prems(4,5,6) by simp
  have "at2 (upd2 b (L ! j) (vs ! j)) q = (if q = L ! j then the (map_of (zip L vs) q) else at2 b q)"
    using at2_upd2 [OF Cons.prems(1) p Cons.prems(5)] map_of_zip_nth [of L vs j] Cons.prems(3,6) j
    by auto
  with ih show ?case by (auto simp: write_line_def)
qed

lemma move_line_eq:
  assumes "loop_ranges g d = Some lr" "gen_offset_list ic off lr = map ipos L" "distinct L"
    "\<forall>p \<in> set L. in_bounds h w p" "rect h w b"
  shows "\<exists>b'. move_line g d off ic b = Inr b' \<and> rect h w b' \<and>
           (\<forall>q. in_bounds h w q \<longrightarrow>
              at2 b' q = (if q \<in> set L then the (map_of (zip L (merge (map (at2 b) L))) q) else at2 b q))"
proof -
  let ?vs = "merge (map (at2 b) L)"
  have len: "length ?vs = length L" by (simp add: merge_pm)
  have js: "\<forall>j \<in> set [0..<length ?vs]. j < length L" using len by simp
  have wb: "write_back (map ipos L) ?vs b = Inr (write_line L ?vs [0..<length L] b)"
       "rect h w (write_line L ?vs [0..<length L] b)"
    using write_back_fold [OF assms(5,4) js, of ?vs] len by (simp_all add: write_back_def)
  have m: "move_line g d off ic b = Inr (write_line L ?vs [0..<length L] b)"
    using assms(1,2) wb(1) map_err_py_get2 [OF assms(5,4)] by (simp add: move_line_def dict_get_def)
  have "set (map (nth L) [0..<length L]) = set L" by (simp add: map_nth)
  then have "\<forall>q. in_bounds h w q \<longrightarrow>
      at2 (write_line L ?vs [0..<length L] b) q = (if q \<in> set L then the (map_of (zip L ?vs) q) else at2 b q)"
    using at2_write_line [OF assms(5,4,3), of "[0..<length L]" _ ?vs] len by simp
  with m wb(2) show ?thesis by blast
qed

lemma move_lines_fold:
  assumes "loop_ranges g d = Some lr" "map (\<lambda>ic. gen_offset_list ic off lr) ics = map (map ipos) Ls"
    "distinct (concat Ls)" "\<forall>L \<in> set Ls. \<forall>p \<in> set L. in_bounds h w p" "rect h w b"
  shows "\<exists>b'. fold_err (move_line g d off) ics b = Inr b' \<and> rect h w b' \<and>
           (\<forall>q. in_bounds h w q \<longrightarrow> at2 b' q = line_value Ls b q)"
  using assms(2-5)
proof (induction ics arbitrary: Ls b)
  case Nil
  then show ?case by (simp add: line_value_def)
next
  case (Cons ic ics)
  then obtain L Ls' where Ls: "Ls = L # Ls'" "gen_offset_list ic off lr = map ipos L"
    "map (\<lambda>ic. gen_offset_list ic off lr) ics = map (map ipos) Ls'"
    by (cases Ls) auto
  have dL: "distinct L" "distinct (concat Ls')" and disj: "set L \<inter> set (concat Ls') = {}"
    using Cons.prems(2) Ls(1) by simp_all
  obtain b1 where b1: "move_line g d off ic b = Inr b1" "rect h w b1"
    "\<forall>q. in_bounds h w q \<longrightarrow>
       at2 b1 q = (if q \<in> set L then the (map_of (zip L (merge (map (at2 b) L))) q) else at2 b q)"
    using move_line_eq [OF assms(1) Ls(2) dL(1) _ Cons.prems(4)] Cons.prems(3) Ls(1) by auto
  obtain b' where b': "fold_err (move_line g d off) ics b1 = Inr b'" "rect h w b'"
    "\<forall>q. in_bounds h w q \<longrightarrow> at2 b' q = line_value Ls' b1 q"
    using Cons.IH [OF Ls(3) dL(2) _ b1(2)] Cons.prems(3) Ls(1) by auto
  have vals: "at2 b' q = line_value Ls b q" if q: "in_bounds h w q" for q
  proof (cases "q \<in> set L")
    case True
    with disj have "find (\<lambda>L. q \<in> set L) Ls' = None" by (auto simp: find_None_iff)
    with True b'(3) b1(3) q Ls(1) show ?thesis by (simp add: line_value_def)
  next
    case False
    show ?thesis
    proof (cases "find (\<lambda>L. q \<in> set L) Ls'")
      case None
      with False b'(3) b1(3) q Ls(1) show ?thesis by (simp add: line_value_def)
    next
      case (Some L')
      then have L': "L' \<in> set Ls'" by (auto simp: find_Some_iff)
      then have "set L' \<inter> set L = {}" using disj by auto
      moreover have "\<forall>p \<in> set L'. in_bounds h w p" using L' Cons.prems(3) Ls(1) by simp
      ultimately have eqm: "map (at2 b1) L' = map (at2 b) L'" using b1(3) by auto
      have "at2 b' q = line_value Ls' b1 q" using b'(3) q by blast
      also have "\<dots> = line_value Ls b q"
        using Some False Ls(1) eqm by (simp add: line_value_def del: map_eq_conv)
      finally show ?thesis .
    qed
  qed
  have "fold_err (move_line g d off) (ic # ics) b = Inr b'" using b1(1) b'(1) by simp
  with b'(2) vals show ?case by blast
qed

lemma distinct_concat_upt:
  assumes "\<forall>i < n. distinct (f i)" "\<forall>i < n. \<forall>j < n. i \<noteq> j \<longrightarrow> set (f i) \<inter> set (f j) = {}"
  shows "distinct (concat (map f [0..<n]))"
  using assms
proof (induction n)
  case 0
  then show ?case by simp
next
  case (Suc n)
  have ih: "distinct (concat (map f [0..<n]))" using Suc by simp
  have "set (concat (map f [0..<n])) \<inter> set (f n) = {}"
  proof -
    have "\<forall>i < n. set (f i) \<inter> set (f n) = {}" using Suc.prems(2) by simp
    then show ?thesis by auto
  qed
  with ih Suc.prems(1) show ?case by simp
qed

lemma line_value_at:
  assumes "L \<in> set Ls" "k < length L" "distinct (concat Ls)"
  shows "line_value Ls b (L ! k) = merge (map (at2 b) L) ! k"
proof -
  have q: "L ! k \<in> set L" using assms(2) by simp
  then obtain L' where L': "find (\<lambda>M. L ! k \<in> set M) Ls = Some L'"
    using assms(1) by (cases "find (\<lambda>M. L ! k \<in> set M) Ls") (auto simp: find_None_iff)
  then have "L' \<in> set Ls" "L ! k \<in> set L'" by (auto simp: find_Some_iff)
  with assms(1,3) q have "L' = L" by (auto simp: distinct_concat_iff)
  moreover have "distinct L" using assms(1,3) by (simp add: distinct_concat_iff)
  ultimately show ?thesis using L' assms(2) map_of_zip_nth [of L "merge (map (at2 b) L)" k]
    by (simp add: line_value_def merge_pm)
qed

lemma dir_lines_distinct: "distinct (concat (dir_lines h w d))"
proof -
  have up: "distinct (concat (map (\<lambda>c. map (\<lambda>k. (k, c)) [0..<h]) [0..<w]))"
    by (rule distinct_concat_upt) (auto simp: distinct_map inj_on_def)
  have down: "distinct (concat (map (\<lambda>c. map (\<lambda>k. (h - 1 - k, c)) [0..<h]) [0..<w]))"
    by (rule distinct_concat_upt) (auto simp: distinct_map inj_on_def)
  have left: "distinct (concat (map (\<lambda>r. map (\<lambda>k. (r, k)) [0..<w]) [0..<h]))"
    by (rule distinct_concat_upt) (auto simp: distinct_map inj_on_def)
  have right: "distinct (concat (map (\<lambda>r. map (\<lambda>k. (r, w - 1 - k)) [0..<w]) [0..<h]))"
    by (rule distinct_concat_upt) (auto simp: distinct_map inj_on_def)
  from up down left right show ?thesis by (simp add: dir_lines_def)
qed

lemma dir_lines_in_bounds: "\<forall>L \<in> set (dir_lines h w d). \<forall>p \<in> set L. in_bounds h w p"
  by (auto simp: dir_lines_def in_bounds_def)

lemma map_nth_rev: "map (\<lambda>k. xs ! (length xs - 1 - k)) [0..<length xs] = rev xs"
  by (rule nth_equalityI) (auto simp: rev_nth)

lemma dir_offsets:
  assumes "d \<in> {UP, DOWN, LEFT, RIGHT}"
  shows "map (\<lambda>ic. gen_offset_list ic (the (OFFSETS d)) (the (ranges_table h w d))) (the (initials_table h w d)) =
         map (map ipos) (dir_lines h w d)"
proof -
  have up: "map (\<lambda>ic. gen_offset_list ic (1, 0) h) (map (\<lambda>i. (0, int i)) [0..<w]) =
            map (map ipos) (map (\<lambda>c. map (\<lambda>k. (k, c)) [0..<h]) [0..<w])"
    by (simp add: gen_offset_list_eq ipos_def)
  have down: "map (\<lambda>ic. gen_offset_list ic (-1, 0) h) (map (\<lambda>i. (int h - 1, int i)) [0..<w]) =
              map (map ipos) (map (\<lambda>c. map (\<lambda>k. (h - 1 - k, c)) [0..<h]) [0..<w])"
    by (simp add: gen_offset_list_eq ipos_def of_nat_diff)
  have left: "map (\<lambda>ic. gen_offset_list ic (0, 1) w) (map (\<lambda>i. (int i, 0)) [0..<h]) =
              map (map ipos) (map (\<lambda>r. map (\<lambda>k. (r, k)) [0..<w]) [0..<h])"
    by (simp add: gen_offset_list_eq ipos_def)
  have right: "map (\<lambda>ic. gen_offset_list ic (0, -1) w) (map (\<lambda>i. (int i, int w - 1)) [0..<h]) =
               map (map ipos) (map (\<lambda>r. map (\<lambda>k. (r, w - 1 - k)) [0..<w]) [0..<h])"
    by (simp add: gen_offset_list_eq ipos_def of_nat_diff)
  from assms up down left right show ?thesis
    by (auto simp: OFFSETS_def ranges_table_def initials_table_def dir_lines_def direction_defs)
qed

lemma map_upt_mem: "i < n \<Longrightarrow> f i \<in> set (map f [0..<n])"
  by simp

lemma dir_lines_UP: "dir_lines h w UP = map (\<lambda>c. map (\<lambda>k. (k, c)) [0..<h]) [0..<w]"
  by (simp add: dir_lines_def)

lemma dir_lines_DOWN: "dir_lines h w DOWN = map (\<lambda>c. map (\<lambda>k. (h - 1 - k, c)) [0..<h]) [0..<w]"
  by (simp add: dir_lines_def direction_defs)

lemma dir_lines_LEFT: "dir_lines h w LEFT = map (\<lambda>r. map (\<lambda>k. (r, k)) [0..<w]) [0..<h]"
  by (simp add: dir_lines_def direction_defs)

lemma dir_lines_RIGHT: "dir_lines h w RIGHT = map (\<lambda>r. map (\<lambda>k. (r, w - 1 - k)) [0..<w]) [0..<h]"
  by (simp add: dir_lines_def direction_defs)

lemma shift_board_UP:
  "r < h \<Longrightarrow> c < w \<Longrightarrow> shift_board h w UP b ! r ! c = merge (column b c) ! r"
  by (simp add: shift_board_def cols_to_rows_def direction_defs)

lemma shift_board_DOWN:
  "r < h \<Longrightarrow> c < w \<Longrightarrow> shift_board h w DOWN b ! r ! c = rev (merge (rev (column b c))) ! r"
  by (simp add: shift_board_def cols_to_rows_def direction_defs)

lemma shift_board_LEFT:
  "r < length b \<Longrightarrow> shift_board h w LEFT b ! r ! c = merge (b ! r) ! c"
  by (simp add: shift_board_def direction_defs)

lemma shift_board_RIGHT:
  "r < length b \<Longrightarrow> shift_board h w RIGHT b ! r ! c = rev (merge (rev (b ! r))) ! c"
  by (simp add: shift_board_def direction_defs)

lemma nth_rev_merge:
  "k < length xs \<Longrightarrow> merge (rev xs) ! (length xs - 1 - k) = rev (merge (rev xs)) ! k"
  using rev_nth [of k "merge (rev xs)"] by (simp add: merge_pm)

lemma line_value_UP:
  assumes b: "rect h w b" and rc: "r < h" "c < w"
  shows "line_value (dir_lines h w UP) b (r, c) = shift_board h w UP b ! r ! c"
proof -
  have dist: "distinct (concat (dir_lines h w UP))" by (rule dir_lines_distinct)
  have lb: "length b = h" "length (b ! r) = w" using b rc by (simp_all add: rect_def)
  let ?L = "map (\<lambda>k. (k, c)) [0..<h]"
  have L: "?L \<in> set (dir_lines h w UP)"
    unfolding dir_lines_UP by (rule map_upt_mem [of c w "\<lambda>c. map (\<lambda>k. (k, c)) [0..<h]", OF rc(2)])
  have L2: "?L ! r = (r, c)" using rc by simp
  have m: "map (at2 b) ?L = column b c"
    using lb(1) by (intro nth_equalityI) (simp_all add: column_def)
  have "line_value (dir_lines h w UP) b (r, c) = merge (column b c) ! r"
    using line_value_at [OF L _ dist, of r b] L2 rc m by simp
  also have "\<dots> = shift_board h w UP b ! r ! c"
    using rc by (rule shift_board_UP [symmetric])
  finally show ?thesis .
qed

lemma line_value_DOWN:
  assumes b: "rect h w b" and rc: "r < h" "c < w"
  shows "line_value (dir_lines h w DOWN) b (r, c) = shift_board h w DOWN b ! r ! c"
proof -
  have dist: "distinct (concat (dir_lines h w DOWN))" by (rule dir_lines_distinct)
  have lb: "length b = h" "length (b ! r) = w" using b rc by (simp_all add: rect_def)
  let ?L = "map (\<lambda>k. (h - 1 - k, c)) [0..<h]"
  have L: "?L \<in> set (dir_lines h w DOWN)"
    unfolding dir_lines_DOWN by (rule map_upt_mem [of c w "\<lambda>c. map (\<lambda>k. (h - 1 - k, c)) [0..<h]", OF rc(2)])
  have L2: "?L ! (h - 1 - r) = (r, c)" using rc by simp
  have col: "length (column b c) = h" using lb by (simp add: column_def)
  have m: "map (at2 b) ?L = rev (column b c)"
    using lb(1) by (intro nth_equalityI) (simp_all add: column_def rev_nth)
  have "line_value (dir_lines h w DOWN) b (r, c) = merge (rev (column b c)) ! (h - 1 - r)"
    using line_value_at [OF L _ dist, of "h - 1 - r" b] L2 rc m by simp
  also have "\<dots> = rev (merge (rev (column b c))) ! r"
    using nth_rev_merge [of r "column b c"] rc col by simp
  also have "\<dots> = shift_board h w DOWN b ! r ! c"
    using rc by (rule shift_board_DOWN [symmetric])
  finally show ?thesis .
qed

lemma line_value_LEFT:
  assumes b: "rect h w b" and rc: "r < h" "c < w"
  shows "line_value (dir_lines h w LEFT) b (r, c) = shift_board h w LEFT b ! r ! c"
proof -
  have dist: "distinct (concat (dir_lines h w LEFT))" by (rule dir_lines_distinct)
  have lb: "length b = h" "length (b ! r) = w" using b rc by (simp_all add: rect_def)
  let ?L = "map (\<lambda>k. (r, k)) [0..<w]"
  have L: "?L \<in> set (dir_lines h w LEFT)"
    unfolding dir_lines_LEFT by (rule map_upt_mem [of r h "\<lambda>r. map (\<lambda>k. (r, k)) [0..<w]", OF rc(1)])
  have L2: "?L ! c = (r, c)" using rc by simp
  have m: "map (at2 b) ?L = b ! r"
    using lb(2) by (intro nth_equalityI) simp_all
  have "line_value (dir_lines h w LEFT) b (r, c) = merge (b ! r) ! c"
    using line_value_at [OF L _ dist, of c b] L2 rc m by simp
  also have "\<dots> = shift_board h w LEFT b ! r ! c"
    using rc lb by (intro shift_board_LEFT [symmetric]) simp
  finally show ?thesis .
qed

lemma line_value_RIGHT:
  assumes b: "rect h w b" and rc: "r < h" "c < w"
  shows "line_value (dir_lines h w RIGHT) b (r, c) = shift_board h w RIGHT b ! r ! c"
proof -
  have dist: "distinct (concat (dir_lines h w RIGHT))" by (rule dir_lines_distinct)
  have lb: "length b = h" "length (b ! r) = w" using b rc by (simp_all add: rect_def)
  let ?L = "map (\<lambda>k. (r, w - 1 - k)) [0..<w]"
  have L: "?L \<in> set (dir_lines h w RIGHT)"
    unfolding dir_lines_RIGHT by (rule map_upt_mem [of r h "\<lambda>r. map (\<lambda>k. (r, w - 1 - k)) [0..<w]", OF rc(1)])
  have L2: "?L ! (w - 1 - c) = (r, c)" using rc by simp
  have m: "map (at2 b) ?L = rev (b ! r)"
    using lb(2) by (intro nth_equalityI) (simp_all add: rev_nth)
  have "line_value (dir_lines h w RIGHT) b (r, c) = merge (rev (b ! r)) ! (w - 1 - c)"
    using line_value_at [OF L _ dist, of "w - 1 - c" b] L2 rc m by simp
  also have "\<dots> = rev (merge (rev (b ! r))) ! c"
    using nth_rev_merge [of c "b ! r"] rc lb by simp
  also have "\<dots> = shift_board h w RIGHT b ! r ! c"
    using rc lb by (intro shift_board_RIGHT [symmetric]) simp
  finally show ?thesis .
qed

lemma line_value_dir:
  assumes "rect h w b" "r < h" "c < w" "d \<in> {UP, DOWN, LEFT, RIGHT}"
  shows "line_value (dir_lines h w d) b (r, c) = shift_board h w d b ! r ! c"
  using assms line_value_UP line_value_DOWN line_value_LEFT line_value_RIGHT by blast

lemma rect_shift_board: "rect h w b \<Longrightarrow> rect h w (shift_board h w d b)"
  by (auto simp: shift_board_def cols_to_rows_def rect_def merge_pm)

lemma dict_get_Some [simp]: "d k = Some v \<Longrightarrow> dict_get d k = Inr v"
  by (simp add: dict_get_def)

lemma dict_get_None [simp]: "d k = None \<Longrightarrow> dict_get d k = Inl KeyError"
  by (simp add: dict_get_def)

lemma direction_tables:
  assumes "d \<in> {UP, DOWN, LEFT, RIGHT}"
  obtains off ics lr where "OFFSETS d = Some off" "initials_table h w d = Some ics"
    "ranges_table h w d = Some lr"
  using assms by (auto simp: OFFSETS_def initials_table_def ranges_table_def direction_defs)

lemma move_lines_shift:
  assumes wf: "game_wf g" and d: "d \<in> {UP, DOWN, LEFT, RIGHT}"
  shows "move_lines g d = Inr (shift_board (game_height g) (game_width g) d (game_grid g))"
proof -
  let ?h = "game_height g" and ?w = "game_width g" and ?b = "game_grid g"
  have b: "rect ?h ?w ?b" and ini: "initials g = initials_table ?h ?w"
    and lr: "loop_ranges g = ranges_table ?h ?w" using wf by (simp_all add: game_wf_def)
  obtain off ics n where t: "OFFSETS d = Some off" "initials_table ?h ?w d = Some ics"
    "ranges_table ?h ?w d = Some n" using direction_tables [OF d] by blast
  have lr': "loop_ranges g d = Some n" using lr t(3) by simp
  have offs: "map (\<lambda>ic. gen_offset_list ic off n) ics = map (map ipos) (dir_lines ?h ?w d)"
    using dir_offsets [OF d, of ?h ?w] t by simp
  obtain b' where b': "fold_err (move_line g d off) ics ?b = Inr b'"
    "rect ?h ?w b'" "\<forall>q. in_bounds ?h ?w q \<longrightarrow> at2 b' q = line_value (dir_lines ?h ?w d) ?b q"
    using move_lines_fold [OF lr' offs dir_lines_distinct dir_lines_in_bounds b] by blast
  have "b' = shift_board ?h ?w d ?b"
  proof (rule rect_eqI [OF b'(2) rect_shift_board [OF b]])
    fix r c assume "r < ?h" "c < ?w"
    with b'(3) line_value_dir [OF b _ _ d] show "b' ! r ! c = shift_board ?h ?w d ?b ! r ! c"
      by (simp add: in_bounds_def)
  qed
  with b'(1) t(1,2) ini show ?thesis by (simp add: move_lines_def)
qed

lemma move_lines_key_error: "d \<notin> {UP, DOWN, LEFT, RIGHT} \<Longrightarrow> move_lines g d = Inl KeyError"
  by (simp add: move_lines_def OFFSETS_def direction_defs)

lemma py_get2_int:
  "rect h w b \<Longrightarrow> r < h \<Longrightarrow> c < w \<Longrightarrow> py_get2 b (int r, int c) = Inr (b ! r ! c)"
  using py_get2_in [of h w b "(r, c)"] by (simp add: ipos_def in_bounds_def)

lemma py_set2_int:
  "rect h w b \<Longrightarrow> r < h \<Longrightarrow> c < w \<Longrightarrow> py_set2 b (int r, int c) v = Inr (upd2 b (r, c) v)"
  using py_set2_in [of h w b "(r, c)"] by (simp add: ipos_def in_bounds_def)

lemma random_choice_range:
  "0 < n \<Longrightarrow> random_choice (map int [0..<n]) rnd = (Inr (int (rnd 0 mod n)), \<lambda>i. rnd (Suc i))"
  by (simp add: random_choice_def)

lemma random_choice_value_dist:
  "\<exists>v rnd'. random_choice value_dist rnd = (Inr v, rnd') \<and> v \<in> {2, 4}"
proof -
  let ?i = "rnd 0 mod length value_dist"
  have ne: "value_dist \<noteq> []" by (simp add: value_dist_def)
  have "?i < length value_dist" by (simp add: value_dist_def)
  then have "value_dist ! ?i \<in> set value_dist" by (rule nth_mem)
  moreover have "set value_dist = {2, 4}" by (auto simp: value_dist_def)
  ultimately have "value_dist ! ?i \<in> {2, 4}" by simp
  with ne show ?thesis by (simp add: random_choice_def)
qed

text \<open>A probe that finds a cell finds an empty cell of the grid.\<close>

lemma find_empty_loop_Some:
  "find_empty_loop k h w b rnd = (Some (row, col), rnd') \<Longrightarrow> rect h w b \<Longrightarrow>
   \<exists>r c. row = int r \<and> col = int c \<and> r < h \<and> c < w \<and> b ! r ! c = 0"
proof (induction k arbitrary: rnd)
  case 0
  then show ?case by simp
next
  case (Suc k)
  show ?case
  proof (cases "0 < h \<and> 0 < w")
    case True
    let ?r = "rnd 0 mod h" and ?c = "rnd (Suc 0) mod w"
    have rc: "?r < h" "?c < w" using True by simp_all
    have get: "py_get2 b (int ?r, int ?c) = Inr (b ! ?r ! ?c)" using py_get2_int [OF Suc.prems(2) rc] .
    show ?thesis
    proof (cases "b ! ?r ! ?c = 0")
      case True
      with Suc.prems(1) get rc \<open>0 < h \<and> 0 < w\<close> show ?thesis by (auto simp: random_choice_range)
    next
      case False
      with Suc.prems get \<open>0 < h \<and> 0 < w\<close> have
        "find_empty_loop k h w b (\<lambda>i. rnd (Suc (Suc i))) = (Some (row, col), rnd')"
        by (simp add: random_choice_range)
      from Suc.IH [OF this Suc.prems(2)] show ?thesis .
    qed
  next
    case False
    then have "h = 0 \<or> (0 < h \<and> w = 0)" by auto
    with Suc.prems(1) show ?thesis by (auto simp: random_choice_def)
  qed
qed

lemma game_wf_grid:
  "game_wf g \<Longrightarrow> rect (game_height g) (game_width g) b \<Longrightarrow> game_wf (g\<lparr>game_grid := b\<rparr>)"
  by (simp add: game_wf_def)

lemma new_tile_wf:
  assumes b: "rect (game_height g) (game_width g) (game_grid g)"
  shows "\<exists>msg b' rnd'. new_tile g rnd = Inr (msg, g\<lparr>game_grid := b'\<rparr>, rnd') \<and>
           rect (game_height g) (game_width g) b' \<and>
           tile_added (game_height g) (game_width g) (game_grid g) b'"
proof -
  let ?h = "game_height g" and ?w = "game_width g" and ?b = "game_grid g"
  obtain found rnd1 where f: "find_empty_coords g rnd = (found, rnd1)" by fastforce
  show ?thesis
  proof (cases found)
    case None
    have "new_tile g rnd = Inr (Some ''Game is over!!!'', g\<lparr>game_grid := ?b\<rparr>, rnd1)"
      using f None by (simp add: new_tile_def)
    with b show ?thesis unfolding tile_added_def by blast
  next
    case (Some p)
    then obtain row col where p: "found = Some (row, col)" by (cases p) auto
    from find_empty_loop_Some [OF f [unfolded find_empty_coords_def p] b] obtain r c where
      rc: "row = int r" "col = int c" "r < ?h" "c < ?w" "?b ! r ! c = 0" by blast
    obtain v rnd2 where v: "random_choice value_dist rnd1 = (Inr v, rnd2)" "v \<in> {2, 4}"
      using random_choice_value_dist by blast
    have "set_tile g row col v = Inr (g\<lparr>game_grid := upd2 ?b (r, c) v\<rparr>)"
      using py_set2_int [OF b rc(3,4)] rc(1,2) by (simp add: set_tile_def)
    moreover have "rect ?h ?w (upd2 ?b (r, c) v)" using b by (rule rect_upd2)
    moreover have "tile_added ?h ?w ?b (upd2 ?b (r, c) v)"
      using rc v(2) unfolding tile_added_def by blast
    ultimately show ?thesis using f p v(1) by (simp add: new_tile_def) blast
  qed
qed

lemma tile_ok_double: "tile_ok x \<Longrightarrow> tile_ok (x * 2)"
proof (unfold tile_ok_def, elim disjE exE conjE)
  fix k :: nat assume "0 < k" "x = 2 ^ k"
  then have "x * 2 = 2 ^ Suc k" by simp
  then show "x * 2 = 0 \<or> (\<exists>k. 0 < k \<and> x * 2 = 2 ^ k)" by blast
qed simp

lemma tile_ok_new: "v \<in> {2, 4} \<Longrightarrow> tile_ok v"
proof -
  have "tile_ok 2" unfolding tile_ok_def by (rule disjI2, rule exI [of _ 1]) simp
  moreover have "tile_ok 4" unfolding tile_ok_def by (rule disjI2, rule exI [of _ 2]) simp
  moreover assume "v \<in> {2, 4}"
  ultimately show ?thesis by blast
qed

lemma set_pm: "x \<in> set (pm xs) \<Longrightarrow> x \<in> set xs \<or> x = 0 \<or> (\<exists>y \<in> set xs. x = y * 2)"
  by (induction xs rule: pm.induct) (auto split: if_splits)

lemma set_slide_list: "x \<in> set (slide_list xs) \<Longrightarrow> x \<in> set xs \<or> x = 0"
  by (auto simp: slide_list_eq)

lemma merge_tile_ok: "\<forall>x \<in> set xs. tile_ok x \<Longrightarrow> x \<in> set (merge xs) \<Longrightarrow> tile_ok x"
proof -
  assume all: "\<forall>x \<in> set xs. tile_ok x" and x: "x \<in> set (merge xs)"
  have z: "tile_ok 0" by (simp add: tile_ok_def)
  have sl: "\<forall>y \<in> set (slide_list xs). tile_ok y" using all z set_slide_list by blast
  have pm: "\<forall>y \<in> set (pm (slide_list xs)). tile_ok y"
  proof
    fix y assume "y \<in> set (pm (slide_list xs))"
    from set_pm [OF this] show "tile_ok y" using sl z tile_ok_double by blast
  qed
  have "x \<in> set (slide_list (pm (slide_list xs)))" using x by (simp add: merge_pm)
  from set_slide_list [OF this] show ?thesis using pm z by blast
qed

lemma merge_nth_tile_ok:
  "\<forall>x \<in> set xs. tile_ok x \<Longrightarrow> i < length xs \<Longrightarrow> tile_ok (merge xs ! i)"
proof -
  assume all: "\<forall>x \<in> set xs. tile_ok x" and i: "i < length xs"
  have "i < length (merge xs)" using i by (simp add: merge_pm)
  then have "merge xs ! i \<in> set (merge xs)" by (rule nth_mem)
  with all show ?thesis by (rule merge_tile_ok)
qed

lemma rev_merge_nth_tile_ok:
  "\<forall>x \<in> set xs. tile_ok x \<Longrightarrow> i < length xs \<Longrightarrow> tile_ok (rev (merge (rev xs)) ! i)"
proof -
  assume all: "\<forall>x \<in> set xs. tile_ok x" and i: "i < length xs"
  have "i < length (rev (merge (rev xs)))" using i by (simp add: merge_pm)
  then have "rev (merge (rev xs)) ! i \<in> set (rev (merge (rev xs)))" by (rule nth_mem)
  then have "rev (merge (rev xs)) ! i \<in> set (merge (rev xs))" by simp
  moreover have "\<forall>x \<in> set (rev xs). tile_ok x" using all by simp
  ultimately show ?thesis using merge_tile_ok by blast
qed

lemma column_tile_ok: "rect h w b \<Longrightarrow> tiles_ok h w b \<Longrightarrow> c < w \<Longrightarrow> \<forall>x \<in> set (column b c). tile_ok x"
  by (auto simp: in_set_conv_nth column_def rect_def tiles_ok_def)

lemma row_tile_ok:
  assumes "rect h w b" "tiles_ok h w b" "r < h"
  shows "\<forall>x \<in> set (b ! r). tile_ok x"
proof
  fix x assume "x \<in> set (b ! r)"
  then obtain k where "k < length (b ! r)" "x = b ! r ! k" by (auto simp: in_set_conv_nth)
  with assms rect_row_length [OF assms(1,3)] show "tile_ok x" by (simp add: tiles_ok_def)
qed

lemma tiles_ok_shift:
  assumes b: "rect h w b" "tiles_ok h w b" and d: "d \<in> {UP, DOWN, LEFT, RIGHT}"
  shows "tiles_ok h w (shift_board h w d b)"
  unfolding tiles_ok_def
proof (intro allI impI)
  fix r c assume rc: "r < h" "c < w"
  have lb: "length b = h" "length (b ! r) = w" "length (column b c) = h"
    using b(1) rc by (simp_all add: rect_def column_def)
  note col = column_tile_ok [OF b rc(2)] and row = row_tile_ok [OF b rc(1)]
  consider "d = UP" | "d = DOWN" | "d = LEFT" | "d = RIGHT" using d by blast
  then show "tile_ok (shift_board h w d b ! r ! c)"
  proof cases
    case 1
    with shift_board_UP [OF rc] merge_nth_tile_ok [OF col] rc lb show ?thesis by simp
  next
    case 2
    with shift_board_DOWN [OF rc] rev_merge_nth_tile_ok [OF col] rc lb show ?thesis by simp
  next
    case 3
    with shift_board_LEFT [of r b] merge_nth_tile_ok [OF row] rc lb show ?thesis by simp
  next
    case 4
    with shift_board_RIGHT [of r b] rev_merge_nth_tile_ok [OF row] rc lb show ?thesis by simp
  qed
qed

lemma tiles_ok_added:
  assumes "rect h w b" "tiles_ok h w b" "tile_added h w b b'"
  shows "tiles_ok h w b'"
  using assms(3) unfolding tile_added_def
proof (elim disjE exE conjE)
  fix r c v assume rc: "r < h" "c < w" and v: "v \<in> {2, 4}" and b': "b' = upd2 b (r, c) v"
  show "tiles_ok h w b'" unfolding tiles_ok_def
  proof (intro allI impI)
    fix a e assume "a < h" "e < w"
    with at2_upd2_pair [OF assms(1), of "(r, c)" a e v] rc assms(2) tile_ok_new [OF v] b'
    show "tile_ok (b' ! a ! e)" by (simp add: in_bounds_def tiles_ok_def)
  qed
qed (use assms(2) in simp)

lemma tiles_ok_zeros: "tiles_ok h w (replicate h (replicate w 0))"
  by (simp add: tiles_ok_def tile_ok_def)

lemma reset_ok:
  "\<exists>b' rnd'. reset g rnd = Inr (g\<lparr>game_grid := b'\<rparr>, rnd') \<and>
     rect (game_height g) (game_width g) b' \<and> tiles_ok (game_height g) (game_width g) b'"
proof -
  let ?h = "game_height g" and ?w = "game_width g"
  let ?z = "replicate ?h (replicate ?w (0::int))"
  let ?g0 = "g\<lparr>game_grid := ?z\<rparr>"
  obtain m1 b1 rnd1 where n1: "new_tile ?g0 rnd = Inr (m1, ?g0\<lparr>game_grid := b1\<rparr>, rnd1)"
    "rect ?h ?w b1" "tile_added ?h ?w ?z b1"
    using new_tile_wf [of ?g0 rnd] by (auto simp: rect_replicate)
  have t1: "tiles_ok ?h ?w b1" using tiles_ok_added [OF rect_replicate tiles_ok_zeros n1(3)] .
  let ?g1 = "g\<lparr>game_grid := b1\<rparr>"
  obtain m2 b2 rnd2 where n2: "new_tile ?g1 rnd1 = Inr (m2, ?g1\<lparr>game_grid := b2\<rparr>, rnd2)"
    "rect ?h ?w b2" "tile_added ?h ?w b1 b2"
    using new_tile_wf [of ?g1 rnd1] n1(2) by (auto simp: rect_replicate)
  have "tiles_ok ?h ?w b2" using tiles_ok_added [OF n1(2) t1 n2(3)] .
  moreover have "reset g rnd = Inr (g\<lparr>game_grid := b2\<rparr>, rnd2)" using n1(1) n2(1) by (simp add: reset_def)
  ultimately show ?thesis using n2(2) by blast
qed

lemma init_ok:
  assumes "init_game h w rnd = Inr (g, rnd')"
  shows "game_wf g \<and> tiles_ok (game_height g) (game_width g) (game_grid g)"
proof -
  let ?g = "\<lparr>game_height = h, game_width = w, game_grid = [], initials = Map.empty, loop_ranges = Map.empty\<rparr>
            :: twenty_forty_eight"
  obtain b' rnd1 where r: "reset ?g rnd = Inr (?g\<lparr>game_grid := b'\<rparr>, rnd1)" "rect h w b'" "tiles_ok h w b'"
    using reset_ok [of ?g rnd] by auto
  then have "g = create_ranges_cache (create_initials_cache (?g\<lparr>game_grid := b'\<rparr>))"
    using assms by (simp add: init_game_def)
  with r(2,3) show ?thesis
    by (simp add: game_wf_def create_ranges_cache_def create_initials_cache_def)
qed

lemma init_game_Inr: "\<exists>g rnd'. init_game h w rnd = Inr (g, rnd')"
proof -
  let ?g = "\<lparr>game_height = h, game_width = w, game_grid = [], initials = Map.empty, loop_ranges = Map.empty\<rparr>
            :: twenty_forty_eight"
  obtain b' rnd1 where "reset ?g rnd = Inr (?g\<lparr>game_grid := b'\<rparr>, rnd1)"
    using reset_ok [of ?g rnd] by auto
  then show ?thesis by (simp add: init_game_def)
qed

lemma move_Inr_grid:
  assumes wf: "game_wf g" and m: "move g d rnd = Inr (g', rnd')"
  shows "\<exists>b'. g' = g\<lparr>game_grid := b'\<rparr> \<and> rect (game_height g) (game_width g) b' \<and>
           d \<in> {UP, DOWN, LEFT, RIGHT} \<and>
           (b' = shift_board (game_height g) (game_width g) d (game_grid g) \<or>
            tile_added (game_height g) (game_width g) (shift_board (game_height g) (game_width g) d (game_grid g)) b')"
proof -
  let ?h = "game_height g" and ?w = "game_width g" and ?b = "game_grid g"
  let ?S = "shift_board ?h ?w d ?b"
  have d: "d \<in> {UP, DOWN, LEFT, RIGHT}"
  proof (rule ccontr)
    assume "d \<notin> {UP, DOWN, LEFT, RIGHT}"
    with m show False by (simp add: move_def move_lines_key_error)
  qed
  have S: "rect ?h ?w ?S" using wf by (simp add: game_wf_def rect_shift_board)
  have ml: "move_lines g d = Inr ?S" using wf d by (rule move_lines_shift)
  show ?thesis
  proof (cases "?S = ?b")
    case True
    then have "g' = g\<lparr>game_grid := ?S\<rparr>" using m ml by (simp add: move_def)
    with S d show ?thesis by blast
  next
    case False
    let ?g1 = "g\<lparr>game_grid := ?S\<rparr>"
    from new_tile_wf [of ?g1 rnd] S obtain msg b' rnd2 where
      nt: "new_tile ?g1 rnd = Inr (msg, ?g1\<lparr>game_grid := b'\<rparr>, rnd2)"
      "rect ?h ?w b'" "tile_added ?h ?w ?S b'" by auto
    with m ml False have "g' = g\<lparr>game_grid := b'\<rparr>" by (simp add: move_def)
    with nt(2,3) d show ?thesis by blast
  qed
qed

lemma find_empty_loop_stuck:
  assumes "rect h w b" "0 < h" "0 < w" "b ! 0 ! 0 \<noteq> 0"
  shows "find_empty_loop k h w b (\<lambda>i. 0) = (None, \<lambda>i. 0)"
proof -
  have "py_get2 b (0, 0) = Inr (b ! 0 ! 0)" using py_get2_int [OF assms(1-3)] by simp
  then show ?thesis using assms by (induction k) (simp_all add: random_choice_range)
qed

subsection \<open>The lines of a direction cover the grid\<close>

lemma dir_lines_length: "length (concat (dir_lines h w d)) = h * w"
  by (simp add: dir_lines_def length_concat sum_list_triv comp_def)

lemma dir_lines_cover: "set (concat (dir_lines h w d)) = {0..<h} \<times> {0..<w}"
proof (rule card_subset_eq)
  show "set (concat (dir_lines h w d)) \<subseteq> {0..<h} \<times> {0..<w}"
    using dir_lines_in_bounds [of h w d] by (fastforce simp: in_bounds_def)
  show "card (set (concat (dir_lines h w d))) = card ({0..<h} \<times> {0..<w})"
    using distinct_card [OF dir_lines_distinct [of h w d]] by (simp add: dir_lines_length card_cartesian_product)
qed simp

lemma concat_map_ipos: "concat (map (map ipos) L) = map ipos (concat L)"
  by (simp add: map_concat)

lemma inj_ipos: "inj ipos"
  by (auto simp: inj_def ipos_def)

subsection \<open>Sums of tiles\<close>

lemma sum_merge: "sum_list (merge xs) = sum_list xs"
  by (simp add: merge_pm)

lemma sum_cols_to_rows:
  assumes "\<forall>col \<in> set cols. length col = n"
  shows "sum_list (map sum_list (cols_to_rows n cols)) = sum_list (map sum_list cols)"
  using assms
proof (induction cols)
  case Nil
  have "map (\<lambda>r. sum_list (map (\<lambda>col. col ! r) [])) [0..<n] = map (\<lambda>r. 0::int) [0..<n]" by simp
  then show ?case by (simp add: cols_to_rows_def comp_def sum_list_triv)
next
  case (Cons col cols)
  have "map (\<lambda>r. col ! r) [0..<n] = col"
    using Cons.prems by (intro nth_equalityI) simp_all
  then have col: "sum_list (map (\<lambda>r. col ! r) [0..<n]) = sum_list col" by simp
  have "sum_list (map sum_list (cols_to_rows n (col # cols))) =
        sum_list (map (\<lambda>r. col ! r + sum_list (map (\<lambda>c. c ! r) cols)) [0..<n])"
    by (simp add: cols_to_rows_def comp_def)
  also have "\<dots> = sum_list (map (\<lambda>r. col ! r) [0..<n]) + sum_list (map sum_list (cols_to_rows n cols))"
    by (simp add: sum_list_addf cols_to_rows_def comp_def)
  finally show ?case using Cons col by simp
qed

lemma columns_as_rows: "map (column b) [0..<w] = cols_to_rows w b"
  by (simp add: column_def cols_to_rows_def)

lemma sum_columns:
  "rect h w b \<Longrightarrow> sum_list (map (\<lambda>c. sum_list (column b c)) [0..<w]) = sum_list (map sum_list b)"
proof -
  assume r: "rect h w b"
  have "map (\<lambda>c. sum_list (column b c)) [0..<w] = map sum_list (cols_to_rows w b)"
    by (simp flip: columns_as_rows)
  with sum_cols_to_rows [of b w] r show ?thesis by (simp add: rect_def)
qed

lemma sum_shift_board:
  assumes "rect h w b"
  shows "sum_list (map sum_list (shift_board h w d b)) = sum_list (map sum_list b)"
proof -
  have lc: "length (column b c) = h" for c using assms by (simp add: rect_def column_def)
  have up: "sum_list (map sum_list (cols_to_rows h (map (\<lambda>c. merge (column b c)) [0..<w]))) =
            sum_list (map sum_list b)"
    using sum_cols_to_rows [of "map (\<lambda>c. merge (column b c)) [0..<w]" h] sum_columns [OF assms]
    by (simp add: merge_length lc comp_def sum_merge)
  have down: "sum_list (map sum_list (cols_to_rows h (map (\<lambda>c. rev (merge (rev (column b c)))) [0..<w]))) =
            sum_list (map sum_list b)"
    using sum_cols_to_rows [of "map (\<lambda>c. rev (merge (rev (column b c)))) [0..<w]" h] sum_columns [OF assms]
    by (simp add: merge_length lc comp_def sum_merge)
  show ?thesis
    using up down by (simp add: shift_board_def comp_def sum_merge)
qed

subsection \<open>Python indexing on a rectangular grid\<close>

lemma py_index_Inr:
  "- int n \<le> i \<Longrightarrow> i < int n \<Longrightarrow> \<exists>k < n. py_index n i = Inr k"
  by (auto simp: py_index_def)

lemma py_index_lt: "py_index n i = Inr k \<Longrightarrow> k < n"
  by (auto simp: py_index_def split: if_splits)

lemma py_get2_rect:
  "rect h w b \<Longrightarrow> py_get2 b (r, c) =
     (case py_index h r of Inl e \<Rightarrow> Inl e
      | Inr i \<Rightarrow> (case py_index w c of Inl e \<Rightarrow> Inl e | Inr j \<Rightarrow> Inr (b ! i ! j)))"
  by (auto simp: py_get2_def rect_def dest: py_index_lt split: sum.splits)

lemma py_set2_rect:
  "rect h w b \<Longrightarrow> py_index h r = Inr i \<Longrightarrow> py_index w c = Inr j \<Longrightarrow>
   py_set2 b (r, c) v = Inr (upd2 b (i, j) v)"
  by (auto simp: py_set2_def rect_def upd2_def dest: py_index_lt)

subsection \<open>The test suite\<close>

lemma merge_suite_2048:
  "merge [2, 0, 2, 2] = [4, 2, 0, 0]" "merge [2, 0, 2, 4] = [4, 4, 0, 0]"
  "merge [0, 0, 2, 2] = [4, 0, 0, 0]" "merge [2, 2, 0, 0] = [4, 0, 0, 0]"
  "merge [2, 2, 2, 2, 2] = [4, 4, 2, 0, 0]" "merge [8, 16, 16, 8] = [8, 32, 8, 0]"
  using merge_run_tests by simp_all

lemma init_game_fields:
  assumes "init_game h w rnd = Inr (g, rnd')"
  shows "game_height g = h \<and> game_width g = w \<and> rect h w (game_grid g)"
proof -
  let ?g = "\<lparr>game_height = h, game_width = w, game_grid = [], initials = Map.empty, loop_ranges = Map.empty\<rparr>
            :: twenty_forty_eight"
  obtain b' rnd1 where "reset ?g rnd = Inr (?g\<lparr>game_grid := b'\<rparr>, rnd1)" "rect h w b'"
    using reset_ok [of ?g rnd] by auto
  with assms show ?thesis by (auto simp: init_game_def create_initials_cache_def create_ranges_cache_def)
qed

section \<open>Properties of the game\<close>

text \<open>
  C26. On a constructed game the line pass of \<open>move\<close> (lines 173-184) is the
  abstract move: every row or column merged towards the side of the move; a
  key that is not a direction raises \<open>KeyError\<close> at \<open>OFFSETS[direction]\<close>.
\<close>

theorem move_lines_spec:
  assumes "game_wf g"
  shows "move_lines g d =
           (if d \<in> {UP, DOWN, LEFT, RIGHT}
            then Inr (shift_board (game_height g) (game_width g) d (game_grid g))
            else Inl KeyError)"
  using assms by (simp add: move_lines_shift move_lines_key_error)

text \<open>
  C27. The line pass of \<open>move\<close> neither loses nor creates value: on a
  constructed game, for every direction, the tiles of the grid it returns
  add up to the tiles of the grid before the move.
\<close>

theorem move_lines_sum:
  assumes "game_wf g" "d \<in> {UP, DOWN, LEFT, RIGHT}"
  shows "\<exists>b'. move_lines g d = Inr b' \<and> sum_list (map sum_list b') = sum_list (map sum_list (game_grid g))"
  using move_lines_shift [OF assms] sum_shift_board [of "game_height g" "game_width g" "game_grid g" d] assms(1)
  by (simp add: game_wf_def)

text \<open>
  C28. \<open>move\<close> in a direction never raises on a constructed game. When the
  abstract move leaves the board as it was, the game and the random source are
  unchanged; otherwise the new board is the moved board, with at most one new
  \<open>2\<close> or \<open>4\<close> in one of its empty cells.
\<close>

theorem move_spec:
  assumes wf: "game_wf g" and d: "d \<in> {UP, DOWN, LEFT, RIGHT}"
  shows "\<exists>b' rnd'. move g d rnd = Inr (g\<lparr>game_grid := b'\<rparr>, rnd') \<and>
           rect (game_height g) (game_width g) b' \<and>
           (if shift_board (game_height g) (game_width g) d (game_grid g) = game_grid g
            then b' = game_grid g \<and> rnd' = rnd
            else tile_added (game_height g) (game_width g)
                   (shift_board (game_height g) (game_width g) d (game_grid g)) b')"
proof -
  let ?h = "game_height g" and ?w = "game_width g" and ?b = "game_grid g"
  let ?S = "shift_board ?h ?w d ?b"
  have b: "rect ?h ?w ?b" using wf by (simp add: game_wf_def)
  have S: "rect ?h ?w ?S" using b by (rule rect_shift_board)
  have ml: "move_lines g d = Inr ?S" using wf d by (rule move_lines_shift)
  show ?thesis
  proof (cases "?S = ?b")
    case True
    then have "move g d rnd = Inr (g\<lparr>game_grid := ?b\<rparr>, rnd)" using ml by (simp add: move_def)
    with True b show ?thesis by auto
  next
    case False
    let ?g1 = "g\<lparr>game_grid := ?S\<rparr>"
    from new_tile_wf [of ?g1 rnd] S obtain msg b' rnd' where
      nt: "new_tile ?g1 rnd = Inr (msg, ?g1\<lparr>game_grid := b'\<rparr>, rnd')"
      "rect ?h ?w b'" "tile_added ?h ?w ?S b'" by auto
    have "move g d rnd = Inr (g\<lparr>game_grid := b'\<rparr>, rnd')"
      using ml False nt(1) by (simp add: move_def)
    with False nt(2,3) show ?thesis by auto
  qed
qed

text \<open>
  C29. Every game reachable by construction, \<open>reset\<close> and \<open>move\<close>, whatever
  the random choices, is well formed (a \<open>height \<times> width\<close> grid with both
  caches) and holds only empty cells and powers of two from \<open>2\<close> on.
\<close>

theorem reachable_game_inv:
  "reachable_game g \<Longrightarrow> game_wf g \<and> tiles_ok (game_height g) (game_width g) (game_grid g)"
proof (induction rule: reachable_game.induct)
  case (init h w rnd g rnd')
  then show ?case by (rule init_ok)
next
  case (reset g rnd g' rnd')
  obtain b' rnd1 where r: "reset g rnd = Inr (g\<lparr>game_grid := b'\<rparr>, rnd1)"
    "rect (game_height g) (game_width g) b'" "tiles_ok (game_height g) (game_width g) b'"
    using reset_ok [of g rnd] by auto
  with reset.hyps(2) have "g' = g\<lparr>game_grid := b'\<rparr>" by simp
  with r(2,3) reset.IH show ?case by (simp add: game_wf_grid)
next
  case (move g d rnd g' rnd')
  let ?h = "game_height g" and ?w = "game_width g"
  from move_Inr_grid [OF conjunct1 [OF move.IH] move.hyps(2)] obtain b' where
    b': "g' = g\<lparr>game_grid := b'\<rparr>" "rect ?h ?w b'" "d \<in> {UP, DOWN, LEFT, RIGHT}"
    "b' = shift_board ?h ?w d (game_grid g) \<or> tile_added ?h ?w (shift_board ?h ?w d (game_grid g)) b'"
    by blast
  have b: "rect ?h ?w (game_grid g)" using move.IH by (simp add: game_wf_def)
  have S: "tiles_ok ?h ?w (shift_board ?h ?w d (game_grid g))"
    using tiles_ok_shift [OF b _ b'(3)] move.IH by simp
  have "tiles_ok ?h ?w b'"
    using b'(4) S tiles_ok_added [OF rect_shift_board [OF b] S] by blast
  with b' move.IH show ?case by (simp add: game_wf_grid)
qed

text \<open>
  C30. \<open>new_tile\<close> is documented to create a tile in a randomly selected empty
  square, but it gives up after \<open>height * width\<close> random probes: a random
  source that keeps choosing the cell \<open>(0, 0)\<close> of a grid whose first cell is
  taken makes it report \<open>Game is over!!!\<close> and change nothing, however many
  cells are empty.
\<close>

theorem new_tile_gives_up:
  assumes "rect (game_height g) (game_width g) (game_grid g)" "0 < game_height g" "0 < game_width g"
    "game_grid g ! 0 ! 0 \<noteq> 0"
  shows "new_tile g (\<lambda>i. 0) = Inr (Some ''Game is over!!!'', g, \<lambda>i. 0)"
  using find_empty_loop_stuck [OF assms] by (simp add: new_tile_def find_empty_coords_def)

text \<open>
  C31. \<open>set_tile\<close> then \<open>get_tile\<close> is a round trip under Python's indexing:
  on a height x width grid every row in \<open>[-height, height)\<close> and column in
  \<open>[-width, width)\<close> (a negative index counting from the end) can be set;
  the tile then reads back as the value written, every read that denotes
  another cell is unchanged, the grid keeps its shape and the rest of the
  object is untouched.
\<close>

theorem set_tile_get_tile:
  assumes "rect (game_height g) (game_width g) (game_grid g)"
    "- int (game_height g) \<le> r" "r < int (game_height g)"
    "- int (game_width g) \<le> c" "c < int (game_width g)"
  shows "\<exists>g'. set_tile g r c v = Inr g' \<and> g'\<lparr>game_grid := game_grid g\<rparr> = g \<and>
           rect (game_height g) (game_width g) (game_grid g') \<and> get_tile g' r c = Inr v \<and>
           (\<forall>r' c'. get_tile g' r' c' =
              (if py_index (game_height g) r' = py_index (game_height g) r \<and>
                  py_index (game_width g) c' = py_index (game_width g) c
               then Inr v else get_tile g r' c'))"
proof -
  let ?h = "game_height g" and ?w = "game_width g"
  obtain i j where i: "i < ?h" "py_index ?h r = Inr i" and j: "j < ?w" "py_index ?w c = Inr j"
    using py_index_Inr [OF assms(2,3)] py_index_Inr [OF assms(4,5)] by blast
  let ?b = "upd2 (game_grid g) (i, j) v"
  have set: "set_tile g r c v = Inr (g\<lparr>game_grid := ?b\<rparr>)"
    using py_set2_rect [OF assms(1) i(2) j(2)] by (simp add: set_tile_def)
  have rb: "rect ?h ?w ?b" using assms(1) by (rule rect_upd2)
  have get: "get_tile (g\<lparr>game_grid := ?b\<rparr>) r' c' =
      (if py_index ?h r' = py_index ?h r \<and> py_index ?w c' = py_index ?w c then Inr v else get_tile g r' c')"
    for r' c'
  proof (cases "py_index ?h r'"; cases "py_index ?w c'")
    fix a b assume ab: "py_index ?h r' = Inr a" "py_index ?w c' = Inr b"
    then have "in_bounds ?h ?w (a, b)" by (simp add: in_bounds_def py_index_lt)
    with ab i j show ?thesis
      by (simp add: get_tile_def py_get2_rect [OF rb] py_get2_rect [OF assms(1)]
            at2_upd2_pair [OF assms(1)] in_bounds_def)
  qed (simp_all add: get_tile_def py_get2_rect [OF rb] py_get2_rect [OF assms(1)] i j)
  show ?thesis using set rb get [of r c] get by auto
qed

text \<open>
  C32. The lines that \<open>move\<close> walks partition the grid: on a constructed
  game of any height and width, for every direction the cached first cells
  (\<open>_initials\<close>), the cached line length (\<open>_loop_ranges\<close>) and the
  direction's \<open>OFFSETS\<close> make \<open>gen_offset_list\<close> produce every cell of the
  grid exactly once.
\<close>

theorem move_lines_partition:
  assumes wf: "game_wf g" and d: "d \<in> {UP, DOWN, LEFT, RIGHT}"
  shows "\<exists>offset init_coords loop_range.
           OFFSETS d = Some offset \<and> initials g d = Some init_coords \<and> loop_ranges g d = Some loop_range \<and>
           distinct (concat (map (\<lambda>ic. gen_offset_list ic offset loop_range) init_coords)) \<and>
           set (concat (map (\<lambda>ic. gen_offset_list ic offset loop_range) init_coords)) =
             {(int r, int c) | r c. r < game_height g \<and> c < game_width g}"
proof -
  let ?h = "game_height g" and ?w = "game_width g"
  obtain off ics lr where t: "OFFSETS d = Some off" "initials_table ?h ?w d = Some ics" "ranges_table ?h ?w d = Some lr"
    using direction_tables [OF d] by blast
  have c: "initials g d = Some ics" "loop_ranges g d = Some lr" using wf t by (simp_all add: game_wf_def)
  have eq: "concat (map (\<lambda>ic. gen_offset_list ic off lr) ics) = map ipos (concat (dir_lines ?h ?w d))"
    using dir_offsets [OF d, of ?h ?w] t by (simp add: concat_map_ipos)
  have "distinct (map ipos (concat (dir_lines ?h ?w d)))"
    using dir_lines_distinct [of ?h ?w d] inj_on_subset [OF inj_ipos subset_UNIV]
    by (simp add: distinct_map del: set_concat)
  moreover have "set (map ipos (concat (dir_lines ?h ?w d))) = {(int r, int c) | r c. r < ?h \<and> c < ?w}"
  proof -
    have "set (map ipos (concat (dir_lines ?h ?w d))) = ipos ` ({0..<?h} \<times> {0..<?w})"
      by (simp only: set_map dir_lines_cover)
    moreover have "ipos ` ({0..<?h} \<times> {0..<?w}) = {(int r, int c) | r c. r < ?h \<and> c < ?w}"
      by (auto simp: ipos_def image_iff)
    ultimately show ?thesis by simp
  qed
  ultimately have "distinct (concat (map (\<lambda>ic. gen_offset_list ic off lr) ics))"
    "set (concat (map (\<lambda>ic. gen_offset_list ic off lr) ics)) = {(int r, int c) | r c. r < ?h \<and> c < ?w}"
    unfolding eq by simp_all
  with t c show ?thesis by blast
qed

text \<open>
  The twenty checks of \<open>run_test_suite\<close> in \<open>2048.py\<close> all pass, whatever
  the random generator produces: the suite builds its games, resets one and
  sets two tiles without raising.
\<close>

theorem run_test_suite_2048_pass:
  "\<exists>rs. run_test_suite_2048 rnd = Inr rs \<and> length rs = 20 \<and> list_all id rs"
proof -
  obtain g1 rnd1 where i1: "init_game 4 4 rnd = Inr (g1, rnd1)" using init_game_Inr by blast
  obtain b2 rnd2 where r2: "reset g1 rnd1 = Inr (g1\<lparr>game_grid := b2\<rparr>, rnd2)" using reset_ok by blast
  obtain g3 rnd3 where i3: "init_game 5 4 rnd2 = Inr (g3, rnd3)" using init_game_Inr by blast
  have f1: "game_height g1 = 4" "game_width g1 = 4" using init_game_fields [OF i1] by simp_all
  have f3: "game_height g3 = 5" "game_width g3 = 4" "rect 5 4 (game_grid g3)"
    using init_game_fields [OF i3] by simp_all
  have ci: "initials (create_initials_cache g1) = initials_table 4 4"
    by (simp add: create_initials_cache_def f1)
  have cr: "loop_ranges (create_ranges_cache g1) = ranges_table 4 4"
    by (simp add: create_ranges_cache_def f1)
  have pi: "py_index 5 4 = Inr 4" "py_index 4 3 = Inr 3" "py_index 5 3 = Inr 3"
    by (simp_all add: py_index_def)
  let ?b4 = "upd2 (game_grid g3) (4, 3) 10"
  have s4: "set_tile g3 4 3 10 = Inr (g3\<lparr>game_grid := ?b4\<rparr>)"
    using py_set2_rect [OF f3(3) pi(1) pi(2)] by (simp add: set_tile_def)
  have rb4: "rect 5 4 ?b4" using f3(3) by (rule rect_upd2)
  let ?b3 = "upd2 ?b4 (3, 3) 11"
  have s3: "set_tile (g3\<lparr>game_grid := ?b4\<rparr>) 3 3 11 = Inr (g3\<lparr>game_grid := ?b3\<rparr>)"
    using py_set2_rect [OF rb4 pi(3) pi(2)] by (simp add: set_tile_def)
  have rb3: "rect 5 4 ?b3" using rb4 by (rule rect_upd2)
  have t18: "get_tile (g3\<lparr>game_grid := ?b4\<rparr>) 4 3 = Inr 10"
    using rb4 f3(3) by (simp add: get_tile_def py_get2_rect [OF rb4] pi at2_upd2_pair [OF f3(3)] in_bounds_def)
  have t18': "get_tile (g3\<lparr>game_grid := ?b3\<rparr>) 3 3 = Inr 11"
    using rb3 rb4 by (simp add: get_tile_def py_get2_rect [OF rb3] pi at2_upd2_pair [OF rb4] in_bounds_def)
  have tabs: "initials_table 4 4 UP = Some [(0, 0), (0, 1), (0, 2), (0, 3)]"
    "initials_table 4 4 DOWN = Some [(3, 0), (3, 1), (3, 2), (3, 3)]"
    "initials_table 4 4 RIGHT = Some [(0, 3), (1, 3), (2, 3), (3, 3)]"
    "initials_table 4 4 LEFT = Some [(0, 0), (1, 0), (2, 0), (3, 0)]"
    "ranges_table 4 4 UP = Some 4" "ranges_table 4 4 DOWN = Some 4"
    "ranges_table 4 4 RIGHT = Some 4" "ranges_table 4 4 LEFT = Some 4"
    by code_simp+
  show ?thesis
    unfolding run_test_suite_2048_def i1 r2 i3 s4 s3 err_bind.simps prod.case
    by (simp only: t18 t18' ci cr tabs dict_get_def suite_check_def merge_suite_2048
          get_grid_height_def get_grid_width_def f1 f3 option.case map_err.simps err_bind.simps
          id_apply simp_thms) (simp add: f1)
qed

end
