(* ===== verification/Tic_Tac_Toe.thy ===== *)
theory Tic_Tac_Toe
  imports Prelude Complex_Main
begin

text \<open>
  The Monte Carlo tic-tac-toe player of \<open>src/tic_tac_toe.py\<close>. The board is
  the class \<open>TTTBoard\<close> of the course module \<open>ttt_board\<close>, which is not in
  the repository; the player only calls its methods. The model therefore takes
  the board as a type variable \<open>'b\<close> and its methods as the record
  \<open>ttt_board\<close> of operations, and every lemma holds for every implementation
  that meets the lemma's stated hypotheses. The board's constants \<open>EMPTY\<close>,
  \<open>PLAYERX\<close>, \<open>PLAYERO\<close> and \<open>DRAW\<close> are the datatype \<open>ttt_player\<close>
  (\<open>EMPTY\<close> is \<open>EMPTY_SQ\<close> here); \<open>check_win\<close> returns \<open>None\<close> while the game
  goes on. A board is a value: \<open>board.move\<close> returns the new board, and
  \<open>board.clone()\<close> is the board itself. Scores are rationals (the floats
  \<open>1.0\<close> are exact), and the random source is the stream \<open>rng\<close>.
\<close>

section \<open>Definitions\<close>

datatype ttt_player = EMPTY_SQ | PLAYERX | PLAYERO | DRAW

record 'b ttt_board =
  get_dim :: "'b \<Rightarrow> nat"
  square :: "'b \<Rightarrow> nat \<Rightarrow> nat \<Rightarrow> ttt_player"
  get_empty_squares :: "'b \<Rightarrow> (nat \<times> nat) list"
  check_win :: "'b \<Rightarrow> ttt_player option"
  board_move :: "'b \<Rightarrow> nat \<Rightarrow> nat \<Rightarrow> ttt_player \<Rightarrow> 'b"
  switch_player :: "ttt_player \<Rightarrow> ttt_player"

text \<open>Lines 12-14.\<close>

definition NTRIALS :: nat where "NTRIALS = 20"
definition SCORE_CURRENT :: rat where "SCORE_CURRENT = 1"
definition SCORE_OTHER :: rat where "SCORE_OTHER = 1"

text \<open>
  \<open>random.randrange(0, n)\<close> (Python 2): \<open>ValueError\<close> for an empty range,
  otherwise the number the next value of the stream selects.
\<close>

definition randrange :: "nat \<Rightarrow> rng \<Rightarrow> (nat \<times> rng) result" where
  "randrange n rnd = (if n = 0 then Inl ValueError else Inr (rnd 0 mod n, \<lambda>i. rnd (Suc i)))"

text \<open>
  Lines 18-37: random moves, alternating players, until \<open>check_win\<close> reports
  an outcome. A random square may be taken already; the loop goes on regardless,
  and need not end, so it is a partial function in the option monad.
\<close>

partial_function (option) mc_trial ::
  "'b ttt_board \<Rightarrow> 'b \<Rightarrow> ttt_player \<Rightarrow> rng \<Rightarrow> ('b \<times> rng) result option" where
  "mc_trial ops board player rnd =
     (let board_dim = get_dim ops board
      in case randrange board_dim rnd of
           Inl e \<Rightarrow> Some (Inl e)
         | Inr (row, rnd1) \<Rightarrow>
             (case randrange board_dim rnd1 of
                Inl e \<Rightarrow> Some (Inl e)
              | Inr (col, rnd2) \<Rightarrow>
                  (let board' = board_move ops board row col player;
                       winner = check_win ops board';
                       player' = switch_player ops player
                   in if winner = None then mc_trial ops board' player' rnd2
                      else Some (Inr (board', rnd2)))))"

declare mc_trial.simps [code]

text \<open>
  Lines 39-67: with a winner (or no outcome yet), every occupied square is
  credited \<open>score_good\<close> when the winner holds it and debited \<open>score_bad\<close>
  otherwise; a draw changes nothing. The two loops run over the squares in
  row-major order, and \<open>scores[r][c] += x\<close> reads and writes the nested list.
\<close>

definition score_square ::
  "'b ttt_board \<Rightarrow> 'b \<Rightarrow> ttt_player option \<Rightarrow> rat \<Rightarrow> rat \<Rightarrow> pos \<Rightarrow> rat list list \<Rightarrow> rat list list result" where
  "score_square ops board winner score_good score_bad p scores =
     (let sqr = square ops board (fst p) (snd p)
      in if sqr \<noteq> EMPTY_SQ then
           (if Some sqr = winner
            then err_bind (get2 scores p) (\<lambda>x. set2 scores p (x + score_good))
            else err_bind (get2 scores p) (\<lambda>x. set2 scores p (x - score_bad)))
         else Inr scores)"

definition mc_update_scores ::
  "'b ttt_board \<Rightarrow> rat list list \<Rightarrow> 'b \<Rightarrow> ttt_player \<Rightarrow> rat list list result" where
  "mc_update_scores ops scores board player =
     (let winner = check_win ops board
      in if winner \<noteq> Some DRAW then
           (let (score_good, score_bad) =
                  (if winner = Some player then (SCORE_CURRENT, SCORE_OTHER) else (SCORE_OTHER, SCORE_CURRENT));
                board_dim = get_dim ops board
            in fold_err (score_square ops board winner score_good score_bad)
                 (List.product [0..<board_dim] [0..<board_dim]) scores)
         else Inr scores)"

text \<open>
  Lines 70-86: the first empty square, then every later one with a strictly
  greater score; \<open>emp_sqs[0]\<close> raises \<open>IndexError\<close> on a full board.
\<close>

definition best_step :: "rat list list \<Rightarrow> pos \<Rightarrow> pos \<Rightarrow> pos result" where
  "best_step scores tup max_so_far =
     err_bind (get2 scores tup) (\<lambda>s_tup.
       err_bind (get2 scores max_so_far) (\<lambda>s_max.
         Inr (if s_tup > s_max then tup else max_so_far)))"

definition get_best_move :: "'b ttt_board \<Rightarrow> 'b \<Rightarrow> rat list list \<Rightarrow> pos result" where
  "get_best_move ops board scores =
     (let emp_sqs = get_empty_squares ops board
      in err_bind (list_get emp_sqs 0) (\<lambda>max_so_far.
           fold_err (best_step scores) (drop 1 emp_sqs) max_so_far))"

text \<open>Lines 104-107: \<open>trials\<close> random games from the current board, each scored.\<close>

fun mc_trials ::
  "'b ttt_board \<Rightarrow> 'b \<Rightarrow> ttt_player \<Rightarrow> nat \<Rightarrow> rat list list \<Rightarrow> rng \<Rightarrow> (rat list list \<times> rng) result option" where
  "mc_trials ops board player 0 scores rnd = Some (Inr (scores, rnd))"
| "mc_trials ops board player (Suc n) scores rnd =
     (case mc_trial ops board player rnd of
        None \<Rightarrow> None
      | Some (Inl e) \<Rightarrow> Some (Inl e)
      | Some (Inr (trial_board, rnd1)) \<Rightarrow>
          (case mc_update_scores ops scores trial_board player of
             Inl e \<Rightarrow> Some (Inl e)
           | Inr scores' \<Rightarrow> mc_trials ops board player n scores' rnd1))"

text \<open>Lines 91-109.\<close>

definition mc_move ::
  "'b ttt_board \<Rightarrow> 'b \<Rightarrow> ttt_player \<Rightarrow> nat \<Rightarrow> rng \<Rightarrow> (pos \<times> rng) result option" where
  "mc_move ops board player trials rnd =
     (let brd_dim = get_dim ops board;
          scores = replicate brd_dim (replicate brd_dim 0)
      in case mc_trials ops board player trials scores rnd of
           None \<Rightarrow> None
         | Some (Inl e) \<Rightarrow> Some (Inl e)
         | Some (Inr (scores', rnd1)) \<Rightarrow>
             Some (err_bind (get_best_move ops board scores') (\<lambda>best_move. Inr (best_move, rnd1))))"

subsection \<open>Reference definitions\<close>

text \<open>The first of the squares whose score is the greatest among them.\<close>

definition first_best :: "rat list list \<Rightarrow> pos list \<Rightarrow> pos" where
  "first_best scores sqs = hd (filter (\<lambda>q. at2 scores q = Max (at2 scores ` set sqs)) sqs)"

text \<open>What scoring adds to one square's score.\<close>

definition score_delta :: "'b ttt_board \<Rightarrow> 'b \<Rightarrow> ttt_player option \<Rightarrow> rat \<Rightarrow> rat \<Rightarrow> pos \<Rightarrow> rat" where
  "score_delta ops board winner good bad p =
     (let sqr = square ops board (fst p) (snd p)
      in if sqr \<noteq> EMPTY_SQ then (if Some sqr = winner then good else - bad) else 0)"

section \<open>Lemmas\<close>

lemma first_max_step:
  fixes f :: "'a \<Rightarrow> rat"
  shows "hd (filter (\<lambda>q. f q = Max (f ` set (x # t # ts))) (x # t # ts)) =
         hd (filter (\<lambda>q. f q = Max (f ` set ((if f t > f x then t else x) # ts))) ((if f t > f x then t else x) # ts))"
proof (cases "f t > f x")
  case True
  have ge: "Max (f ` set (t # ts)) \<ge> f t" by simp
  then have "f x \<le> Max (f ` set (t # ts))" using True by linarith
  then have M: "Max (f ` set (x # t # ts)) = Max (f ` set (t # ts))" by (simp add: max_def)
  have "f x \<noteq> Max (f ` set (t # ts))" using True ge by linarith
  then have eqF: "(f x = Max (f ` set (t # ts))) = False" by simp
  have c: "(if f t > f x then t else x) = t" using True by simp
  show ?thesis unfolding c M by (simp only: filter.simps eqF if_False)
next
  case False
  have Mx: "Max (f ` set (x # ts)) \<ge> f x" by simp
  have M: "Max (f ` set (x # t # ts)) = Max (f ` set (x # ts))"
  proof -
    have le: "f t \<le> Max (f ` set (x # ts))" using False Mx by linarith
    have s: "f ` set (x # t # ts) = insert (f t) (f ` set (x # ts))" by auto
    have "Max (f ` set (x # t # ts)) = max (f t) (Max (f ` set (x # ts)))"
      unfolding s by (rule Max_insert) simp_all
    also have "\<dots> = Max (f ` set (x # ts))" using le by (rule max_absorb2)
    finally show ?thesis .
  qed
  have c: "(if f t > f x then t else x) = x" using False by simp
  show ?thesis
  proof (cases "f x = Max (f ` set (x # ts))")
    case True
    then have eqT: "(f x = Max (f ` set (x # ts))) = True" by simp
    show ?thesis unfolding c M by (simp only: filter.simps eqT if_True list.sel)
  next
    case neq: False
    then have "f x < Max (f ` set (x # ts))" using Mx by (rule order.not_eq_order_implies_strict)
    then have "f t \<noteq> Max (f ` set (x # ts))" using False by linarith
    then have eqF: "(f x = Max (f ` set (x # ts))) = False" "(f t = Max (f ` set (x # ts))) = False"
      using neq by simp_all
    show ?thesis unfolding c M by (simp only: filter.simps eqF if_False)
  qed
qed

lemma get_best_fold:
  assumes "rect n m scores" "\<forall>q \<in> set (x # xs). in_bounds n m q"
  shows "fold_err (best_step scores) xs x =
         Inr (first_best scores (x # xs))"
  using assms(2)
proof (induction xs arbitrary: x)
  case Nil
  then show ?case by (simp add: first_best_def)
next
  case (Cons t ts)
  let ?m = "if at2 scores t > at2 scores x then t else x"
  have step: "best_step scores t x = Inr ?m"
    using Cons.prems get2_in [OF assms(1)] by (simp add: best_step_def)
  have "\<forall>q \<in> set (?m # ts). in_bounds n m q" using Cons.prems by auto
  from Cons.IH [OF this] step have "fold_err (best_step scores) (t # ts) x = Inr (first_best scores (?m # ts))" by simp
  also have "first_best scores (?m # ts) = first_best scores (x # t # ts)"
    unfolding first_best_def by (rule first_max_step [symmetric])
  finally show ?case .
qed

lemma upd2_at2_same: "rect n m s \<Longrightarrow> in_bounds n m p \<Longrightarrow> upd2 s p (at2 s p) = s"
  by (simp add: upd2_def rect_def in_bounds_def)

lemma score_square_eq:
  assumes "rect n m s" "in_bounds n m p"
  shows "score_square ops board winner good bad p s =
         Inr (upd2 s p (at2 s p + score_delta ops board winner good bad p))"
  using assms get2_in [OF assms] set2_in [OF assms] upd2_at2_same [OF assms]
  by (simp add: score_square_def score_delta_def Let_def)

lemma fold_err_add:
  assumes f: "\<forall>p \<in> set ps. \<forall>s. rect n m s \<longrightarrow> f p s = Inr (upd2 s p (at2 s p + \<delta> p))"
    and ps: "distinct ps" "\<forall>p \<in> set ps. in_bounds n m p" and s: "rect n m s"
  shows "\<exists>s'. fold_err f ps s = Inr s' \<and> rect n m s' \<and>
           (\<forall>q. in_bounds n m q \<longrightarrow> at2 s' q = at2 s q + (if q \<in> set ps then \<delta> q else (0::rat)))"
  using f ps s
proof (induction ps arbitrary: s)
  case Nil
  then show ?case by simp
next
  case (Cons p ps)
  let ?s1 = "upd2 s p (at2 s p + \<delta> p)"
  have p: "in_bounds n m p" using Cons.prems(3) by simp
  have r1: "rect n m ?s1" using Cons.prems(4) by (rule rect_upd2)
  have step: "f p s = Inr ?s1" using Cons.prems(1,4) by simp
  obtain s' where s': "fold_err f ps ?s1 = Inr s'" "rect n m s'"
    "\<forall>q. in_bounds n m q \<longrightarrow> at2 s' q = at2 ?s1 q + (if q \<in> set ps then \<delta> q else 0)"
    using Cons.IH [OF _ _ _ r1] Cons.prems(1-3) by auto
  have "at2 s' q = at2 s q + (if q \<in> set (p # ps) then \<delta> q else 0)" if q: "in_bounds n m q" for q
  proof -
    have "at2 ?s1 q = (if q = p then at2 s p + \<delta> p else at2 s q)"
      using at2_upd2 [OF Cons.prems(4) p q] .
    moreover have "q = p \<Longrightarrow> q \<notin> set ps" using Cons.prems(2) by auto
    ultimately show ?thesis using s'(3) q by auto
  qed
  with step s' show ?case by auto
qed

lemma first_best_in:
  assumes "sqs \<noteq> []"
  shows "first_best scores sqs \<in> set sqs"
proof -
  have "Max (at2 scores ` set sqs) \<in> at2 scores ` set sqs" using assms by simp
  then obtain q where "Max (at2 scores ` set sqs) = at2 scores q" "q \<in> set sqs" by (rule imageE)
  then have "filter (\<lambda>q. at2 scores q = Max (at2 scores ` set sqs)) sqs \<noteq> []"
    by (auto simp: filter_empty_conv)
  then have "hd (filter (\<lambda>q. at2 scores q = Max (at2 scores ` set sqs)) sqs) \<in>
             set (filter (\<lambda>q. at2 scores q = Max (at2 scores ` set sqs)) sqs)" by (rule hd_in_set)
  then show ?thesis by (simp add: first_best_def)
qed

lemma mc_trial_dim:
  assumes run: "mc_trial ops board player rnd = Some y"
    and dim: "\<forall>b r c q. get_dim ops (board_move ops b r c q) = get_dim ops b"
    and pos: "0 < get_dim ops board"
  shows "\<exists>b' rnd'. y = Inr (b', rnd') \<and> get_dim ops b' = get_dim ops board"
proof -
  have "ops = ops \<longrightarrow> 0 < get_dim ops board \<longrightarrow>
        (\<exists>b' rnd'. y = Inr (b', rnd') \<and> get_dim ops b' = get_dim ops board)"
  proof (rule mc_trial.raw_induct [where P = "\<lambda>bs b p rnd y. bs = ops \<longrightarrow> 0 < get_dim bs b \<longrightarrow>
           (\<exists>b' rnd'. y = Inr (b', rnd') \<and> get_dim bs b' = get_dim bs b)", OF _ run], goal_cases)
    case (1 f bs b p r y)
    have dim': "get_dim ops (board_move ops b' r' c' q) = get_dim ops b'" for b' r' c' q
      using dim by blast
    from 1 show ?case
      by (fastforce simp: randrange_def Let_def dim' split: if_splits)
  qed
  with pos show ?thesis by simp
qed

lemma mc_update_scores_fold:
  assumes sc: "rect (get_dim ops board) (get_dim ops board) scores"
    and nd: "check_win ops board \<noteq> Some DRAW"
  shows "\<exists>scores'. mc_update_scores ops scores board player = Inr scores' \<and>
           rect (get_dim ops board) (get_dim ops board) scores' \<and>
           (\<forall>q. in_bounds (get_dim ops board) (get_dim ops board) q \<longrightarrow>
              at2 scores' q = at2 scores q + score_delta ops board (check_win ops board)
                (if check_win ops board = Some player then SCORE_CURRENT else SCORE_OTHER)
                (if check_win ops board = Some player then SCORE_OTHER else SCORE_CURRENT) q)"
proof -
  let ?n = "get_dim ops board" and ?w = "check_win ops board"
  let ?good = "if ?w = Some player then SCORE_CURRENT else SCORE_OTHER"
  let ?bad = "if ?w = Some player then SCORE_OTHER else SCORE_CURRENT"
  let ?ps = "List.product [0..<?n] [0..<?n]"
  have ps: "distinct ?ps" "\<forall>p \<in> set ?ps. in_bounds ?n ?n p"
    by (auto simp: distinct_product in_bounds_def)
  have f: "\<forall>p \<in> set ?ps. \<forall>s. rect ?n ?n s \<longrightarrow>
      score_square ops board ?w ?good ?bad p s = Inr (upd2 s p (at2 s p + score_delta ops board ?w ?good ?bad p))"
  proof (intro ballI allI impI)
    fix p and s :: "rat list list" assume "p \<in> set ?ps" and "rect ?n ?n s"
    with ps(2) show "score_square ops board ?w ?good ?bad p s =
        Inr (upd2 s p (at2 s p + score_delta ops board ?w ?good ?bad p))" by (blast intro: score_square_eq)
  qed
  obtain s' where s': "fold_err (score_square ops board ?w ?good ?bad) ?ps scores = Inr s'" "rect ?n ?n s'"
    "\<forall>q. in_bounds ?n ?n q \<longrightarrow> at2 s' q = at2 scores q + (if q \<in> set ?ps then score_delta ops board ?w ?good ?bad q else 0)"
    using fold_err_add [OF f ps sc] by blast
  have m: "mc_update_scores ops scores board player = Inr s'"
    using nd s'(1) by (cases "?w = Some player") (simp_all add: mc_update_scores_def Let_def)
  have "q \<in> set ?ps" if "in_bounds ?n ?n q" for q
    using that by (cases q) (simp add: in_bounds_def)
  with m s'(2,3) show ?thesis by auto
qed

lemma mc_update_scores_rect:
  assumes "rect (get_dim ops board) (get_dim ops board) scores"
  shows "\<exists>scores'. mc_update_scores ops scores board player = Inr scores' \<and>
           rect (get_dim ops board) (get_dim ops board) scores'"
proof (cases "check_win ops board = Some DRAW")
  case True
  with assms show ?thesis by (simp add: mc_update_scores_def)
next
  case False
  from mc_update_scores_fold [OF assms False, of player] show ?thesis by blast
qed

lemma mc_trials_rect:
  assumes dim: "\<forall>b r c q. get_dim ops (board_move ops b r c q) = get_dim ops b"
    and pos: "0 < get_dim ops board"
    and sc: "rect (get_dim ops board) (get_dim ops board) scores"
    and run: "mc_trials ops board player n scores rnd = Some res"
  shows "\<exists>scores' rnd'. res = Inr (scores', rnd') \<and> rect (get_dim ops board) (get_dim ops board) scores'"
  using sc run
proof (induction n arbitrary: scores rnd)
  case 0
  then show ?case by auto
next
  case (Suc n)
  obtain y where t: "mc_trial ops board player rnd = Some y"
    using Suc.prems(2) by (cases "mc_trial ops board player rnd") simp_all
  from mc_trial_dim [OF t dim pos] obtain b' rnd1 where
    y: "y = Inr (b', rnd1)" and d: "get_dim ops b' = get_dim ops board" by blast
  from mc_update_scores_rect [of ops b' scores player] Suc.prems(1) d obtain s1 where
    u: "mc_update_scores ops scores b' player = Inr s1" "rect (get_dim ops board) (get_dim ops board) s1"
    by auto
  from Suc.prems(2) t y u(1) have "mc_trials ops board player n s1 rnd1 = Some res" by simp
  from Suc.IH [OF u(2) this] show ?case .
qed


section \<open>Properties of the player\<close>

text \<open>
  C33. When every empty square lies inside the score grid, \<open>get_best_move\<close>
  raises \<open>IndexError\<close> on a full board and otherwise returns the first empty
  square, in the order of \<open>get_empty_squares\<close>, whose score is the greatest
  among the empty squares; its docstring says that one of the best squares is
  chosen at random.
\<close>

theorem get_best_move_first_best:
  assumes "rect n m scores" "\<forall>q \<in> set (get_empty_squares ops board). in_bounds n m q"
  shows "get_best_move ops board scores =
           (if get_empty_squares ops board = [] then Inl IndexError
            else Inr (first_best scores (get_empty_squares ops board)))"
proof (cases "get_empty_squares ops board")
  case Nil
  then show ?thesis by (simp add: get_best_move_def list_get_def)
next
  case (Cons x xs)
  with get_best_fold [OF assms(1), of x xs] assms(2) show ?thesis
    by (simp add: get_best_move_def list_get_def)
qed

text \<open>
  C34. On a score grid of the board's dimension, \<open>mc_update_scores\<close> returns
  a grid of that dimension in which a draw changes nothing, and otherwise every
  occupied square gains \<open>score_good\<close> when the winner holds it and loses
  \<open>score_bad\<close> when it does not, with the two scores of the current player
  or of the other as the winner is the machine player or not. On a board with
  no outcome yet (\<open>check_win\<close> returns \<open>None\<close>) every occupied square loses.
\<close>

theorem mc_update_scores_spec:
  assumes sc: "rect (get_dim ops board) (get_dim ops board) scores"
  shows "\<exists>scores'. mc_update_scores ops scores board player = Inr scores' \<and>
           rect (get_dim ops board) (get_dim ops board) scores' \<and>
           (\<forall>r < get_dim ops board. \<forall>c < get_dim ops board.
              scores' ! r ! c = scores ! r ! c +
                (if check_win ops board = Some DRAW \<or> square ops board r c = EMPTY_SQ then 0
                 else if Some (square ops board r c) = check_win ops board
                 then (if check_win ops board = Some player then SCORE_CURRENT else SCORE_OTHER)
                 else - (if check_win ops board = Some player then SCORE_OTHER else SCORE_CURRENT)))"
proof (cases "check_win ops board = Some DRAW")
  case True
  with sc show ?thesis by (simp add: mc_update_scores_def)
next
  case False
  from mc_update_scores_fold [OF sc False, of player] obtain s' where
    s': "mc_update_scores ops scores board player = Inr s'" "rect (get_dim ops board) (get_dim ops board) s'"
    "\<forall>q. in_bounds (get_dim ops board) (get_dim ops board) q \<longrightarrow>
       at2 s' q = at2 scores q + score_delta ops board (check_win ops board)
         (if check_win ops board = Some player then SCORE_CURRENT else SCORE_OTHER)
         (if check_win ops board = Some player then SCORE_OTHER else SCORE_CURRENT) q"
    by blast
  have "s' ! r ! c = scores ! r ! c +
          (if square ops board r c = EMPTY_SQ then 0
           else if Some (square ops board r c) = check_win ops board
           then (if check_win ops board = Some player then SCORE_CURRENT else SCORE_OTHER)
           else - (if check_win ops board = Some player then SCORE_OTHER else SCORE_CURRENT))"
    if "r < get_dim ops board" "c < get_dim ops board" for r c
    using s'(3) that by (simp add: in_bounds_def score_delta_def)
  with s'(1,2) False show ?thesis by simp
qed

text \<open>
  C35. The score grid keeps its type through the trials: when moves keep the
  board's dimension and the dimension is positive, every run of
  \<open>mc_trials\<close> that returns (each random game may go on forever) returns
  scores, never an exception, on a grid of the board's dimension.
\<close>

theorem mc_trials_shape:
  assumes "\<forall>b r c q. get_dim ops (board_move ops b r c q) = get_dim ops b"
    and "0 < get_dim ops board"
    and "rect (get_dim ops board) (get_dim ops board) scores"
    and "mc_trials ops board player n scores rnd = Some res"
  shows "\<exists>scores' rnd'. res = Inr (scores', rnd') \<and> rect (get_dim ops board) (get_dim ops board) scores'"
  using assms by (rule mc_trials_rect)

text \<open>
  C36. \<open>mc_move\<close> on a board with an empty square, all inside the board:
  when it returns, it returns the first best empty square of the scores
  that the trials computed from the all-zero grid, an empty square of the
  board, with the random source the trials left.
\<close>

theorem mc_move_best:
  assumes dim: "\<forall>b r c q. get_dim ops (board_move ops b r c q) = get_dim ops b"
    and pos: "0 < get_dim ops board"
    and emp: "get_empty_squares ops board \<noteq> []"
    and inb: "\<forall>q \<in> set (get_empty_squares ops board). in_bounds (get_dim ops board) (get_dim ops board) q"
    and run: "mc_move ops board player trials rnd = Some res"
  shows "\<exists>scores' rnd'.
           mc_trials ops board player trials (replicate (get_dim ops board) (replicate (get_dim ops board) 0)) rnd =
             Some (Inr (scores', rnd')) \<and> rect (get_dim ops board) (get_dim ops board) scores' \<and>
           res = Inr (first_best scores' (get_empty_squares ops board), rnd') \<and>
           first_best scores' (get_empty_squares ops board) \<in> set (get_empty_squares ops board)"
proof -
  let ?n = "get_dim ops board"
  have z: "rect ?n ?n (replicate ?n (replicate ?n (0 :: rat)))" by (simp add: rect_def)
  obtain y where t: "mc_trials ops board player trials (replicate ?n (replicate ?n 0)) rnd = Some y"
    using run by (cases "mc_trials ops board player trials (replicate ?n (replicate ?n 0)) rnd")
      (simp_all add: mc_move_def)
  from mc_trials_rect [OF dim pos z t] obtain s' rnd1 where
    y: "y = Inr (s', rnd1)" and r: "rect ?n ?n s'" by blast
  obtain x xs where e: "get_empty_squares ops board = x # xs" using emp by (cases "get_empty_squares ops board") auto
  have "get_best_move ops board s' = Inr (first_best s' (x # xs))"
    using get_best_fold [OF r, of x xs] inb e by (simp add: get_best_move_def list_get_def)
  with run t y have "res = Inr (first_best s' (get_empty_squares ops board), rnd1)"
    by (simp add: mc_move_def e)
  with t y r first_best_in [OF emp] show ?thesis by blast
qed

end
