(* ===== verification/Spec2Isabelle.thy ===== *)
theory Spec2Isabelle
  imports Simulation Merge Yahtzee Cookie_Clicker Game2048_Move Tic_Tac_Toe
begin

text \<open>
  \<^bold>\<open>A verification library for the programs of \<open>src/\<close>.\<close>
  The repository holds five independent Python 2 programs: a zombie-pursuit
  simulation (\<open>zombie_apocalypse.py\<close>, on the course modules \<open>grid\<close> and
  \<open>queue\<close>, which are not in the repository), the 2048 line merge
  (\<open>merge.py\<close>) and game (\<open>2048.py\<close>), a Yahtzee planner (\<open>yahtzee.py\<close>
  with \<open>holds_testsuite.py\<close>), a Cookie Clicker simulator
  (\<open>cookie_clicker.py\<close>) and a Monte Carlo tic-tac-toe player
  (\<open>tic_tac_toe.py\<close>). The specification (\<open>spec.md\<close>) describes the
  zombie simulation only.

  \<^bold>\<open>Conventions (theory \<open>Prelude\<close>).\<close> Python exceptions are values of the
  datatype \<open>error\<close>; a computation that may raise returns \<open>'a result =
  error + 'a\<close> and is sequenced with \<open>err_bind\<close>. Nested lists \<open>xs[r][c]\<close>
  are read and written by \<open>get2\<close> and \<open>set2\<close>, which raise \<open>IndexError\<close>
  exactly where Python does for non-negative indices. Python integers are
  \<open>int\<close> (or \<open>nat\<close> for coordinates and counts), floats are \<open>rat\<close>.
  Methods of a class are functions of a record returning the new record.

  \<^bold>\<open>Zombie simulation.\<close>
  \<^item> \<open>Grid\<close>: \<open>grid.Grid\<close> (spec 4.1) as the record \<open>grid\<close>; \<open>set_full\<close>,
    \<open>is_empty\<close>, \<open>four_neighbors\<close>, \<open>eight_neighbors\<close> etc., polymorphic in
    the record extension so that the simulation state inherits them.
  \<^item> \<open>Queue\<close>: \<open>queue.Queue\<close> (spec 4.2), a list, head first.
  \<^item> \<open>Apocalypse\<close>: the class \<open>Apocalypse\<close> as the record \<open>apocalypse\<close>
    extending \<open>grid\<close> with \<open>zombie_list\<close> and \<open>human_list\<close>; the
    constructor, the list methods, \<open>compute_distance_field\<close> (seeding pass
    \<open>seed_boundary\<close>, one neighbour \<open>bfs_visit\<close>, the \<open>while\<close> loop
    \<open>bfs_loop\<close>, terminating by the measure \<open>2 * unvisited cells + queue
    length\<close>) and \<open>move_humans\<close>/\<open>move_zombies\<close> with their per-entity
    folds.
  \<^item> \<open>Distance_Field\<close>: correctness of the search against the abstract
    specification \<open>reach\<close>/\<open>shortest\<close> (shortest four-way obstacle-free walk
    from a source, or the sentinel \<open>height * width\<close>), by loop invariants in
    the style of breadth-first-search proofs (C1-C6). The sentinel is large
    enough because the visited set is a proper subset of the cells while a
    cell is still unvisited, and every distance is below its cardinality.
  \<^item> \<open>Movement\<close>: each move equals a reference choice (\<open>flee_target\<close>,
    \<open>chase_target\<close>: the first strictly best free neighbour) and safety
    (C7-C10). Coordinates are natural numbers, so the \<open>IndexError\<close> the
    code raises for an entity past the last row or column is modelled
    (lemmas \<open>compute_distance_field_error_iff\<close> and the like), but a
    negative coordinate, which Python wraps around, cannot be written down;
    no claim is made about entities outside the grid.
  \<^item> \<open>Simulation\<close>: the driver of spec section 6 (not in the repository)
    as \<open>tick\<close> and \<open>run\<close>; the invariant \<open>sim_ok\<close> makes every run succeed
    (C11). The lemma \<open>tick_order_matters\<close> of this theory documents a remark
    on the specification (section 4.3 against section 6), recorded as a
    finding; \<open>tick_snapshot\<close> is the reading of section 4.3 it compares
    with and models no code.

  \<^bold>\<open>2048 merge (\<open>Merge\<close>).\<close> \<open>slide_list\<close> and \<open>merge\<close>, whose index
  loop \<open>merge_loop\<close> terminates by \<open>length - index\<close>; \<open>merge\<close> is proved
  equal to the pairwise reference \<open>merge_spec\<close> and sum-preserving
  (C12-C13); that the merged line keeps its length and is slid, that the
  loop's result is at most one tile longer than the slid line, and the
  outcome of \<open>merge.py\<close>'s \<open>run_tests\<close> are lemmas of the theory.

  \<^bold>\<open>Yahtzee (\<open>Yahtzee\<close>).\<close> \<open>gen_all_sequences\<close> (a set of lists),
  \<open>score\<close>, \<open>expected_value\<close> (a rational mean), the generator
  \<open>combinations\<close> (its \<open>while True\<close> loop \<open>comb_loop\<close> is a
  \<open>partial_function\<close> in the option monad, proved to return by a
  lexicographic measure on the index vector and to visit every increasing
  index vector), \<open>gen_all_holds\<close>, equal to the library's \<open>subseqs\<close>, and
  \<open>strategy\<close>, proved to return a hold of greatest expected value (C14-C18).
  The test suites of \<open>yahtzee.py\<close> and \<open>holds_testsuite.py\<close> and the
  count of \<open>gen_all_sequences\<close> are lemmas of the theory.

  \<^bold>\<open>Cookie Clicker (\<open>Cookie_Clicker\<close>).\<close> \<open>BuildInfo\<close> and
  \<open>ClickerState\<close> as records, \<open>time_until\<close>, \<open>wait\<close>, \<open>buy_item\<close>,
  \<open>simulate_clicker\<close> (its loop \<open>simulate_loop\<close> a \<open>partial_function\<close>,
  since it does not always end) and \<open>strategy_best_cps_cost_ratio\<close>.
  Python's floats are exact rationals here, so the claims are chosen to hold
  in floating-point arithmetic as well: the chronological history (C19),
  the final time, the least whole-second wait, divergence with a free item,
  the best-ratio choice and \<open>KeyError\<close> (C20-C24). Exact equalities of
  float sums (the cookies in hand against the cookies earned less the
  costs) and general termination, which float absorption defeats when the
  CPS dwarfs a cost (see the findings), are not claimed. The measure (whole
  seconds left, cookies over the least cost) shows that a strategy naming
  only items of the table ends without raising, so the module's \<open>run()\<close>
  (\<open>run_clicker\<close>) ends at \<open>SIM_TIME\<close> (C25). The strategies
  \<open>strategy_none\<close>, \<open>strategy_cheap\<close> and \<open>strategy_expensive\<close> take five
  parameters, so they are not strategies of the loop, and the last two raise
  \<open>NameError\<close> (\<open>map_costs_to_items\<close> reads undefined globals).

  \<^bold>\<open>2048 game (\<open>Game2048\<close>, \<open>Game2048_Move\<close>).\<close> The class
  \<open>TwentyFortyEight\<close> as the record \<open>twenty_forty_eight\<close>: the caches
  \<open>create_initials_cache\<close> and \<open>create_ranges_cache\<close>, \<open>gen_offset_list\<close>,
  \<open>move\<close> (the line pass \<open>move_lines\<close>, then \<open>new_tile\<close> when the grid
  changed), \<open>find_empty_coords\<close>, \<open>new_tile\<close>, \<open>reset\<close>, \<open>set_tile\<close>,
  \<open>get_tile\<close> and the constructor \<open>init_game\<close>. The \<open>random\<close> module is an
  explicit stream of draws (\<open>random_choice\<close>), passed in and returned, so
  that lemmas over every stream cover every run. The line pass is proved to
  compute the abstract move \<open>shift_board\<close> (every row or column merged
  towards the side of the move) through a loop invariant over disjoint lines
  (\<open>line_value\<close>); \<open>move\<close> then adds at most one tile, and only when the
  board changed; every game reachable by \<open>reset\<close> and \<open>move\<close> is well
  formed and holds only powers of two; \<open>new_tile\<close> can give up although
  empty cells remain (C26, C28-C30). The line pass keeps the sum of the
  tiles (C27). \<open>set_tile\<close> and \<open>get_tile\<close> index as Python does, negative
  indices counting from the end, and writing then reading a tile is a round
  trip that leaves every other cell alone (C31). For every height, width
  and direction the caches and \<open>OFFSETS\<close> make the lines of a move list
  every cell exactly once (C32). The informal \<open>run_test_suite\<close> is
  \<open>run_test_suite_2048\<close>, the list of the outcomes of its twenty checks;
  the lemma \<open>run_test_suite_2048_pass\<close> shows it passes for every random
  stream. The probe loop of \<open>find_empty_coords\<close> is
  bounded by its \<open>range(height * width)\<close>, so every definition is total.

  \<^bold>\<open>Monte Carlo tic-tac-toe (\<open>Tic_Tac_Toe\<close>).\<close> The player calls
  the board class of \<open>ttt_board\<close>, which is not in the repository, so the
  board is a type variable and its methods the record \<open>ttt_board\<close> of
  operations: every lemma holds for every implementation meeting its stated
  hypotheses. \<open>mc_trial\<close> (random moves until \<open>check_win\<close> reports an
  outcome; a \<open>partial_function\<close>, since random squares may keep missing),
  \<open>mc_update_scores\<close>, \<open>get_best_move\<close> and \<open>mc_move\<close>. \<open>get_best_move\<close>
  is proved to return the first best empty square (the reference
  \<open>first_best\<close>) and \<open>mc_update_scores\<close> to add the documented score to
  every occupied square (C33-C34). The score grid keeps its dimension
  through the trials, which never raise on a board of positive dimension
  (C35), and \<open>mc_move\<close> returns the first best empty square of the scores
  the trials computed (C36). The example implementation \<open>ex_ttt\<close> of
  this theory is used by the witnesses only.

  \<^bold>\<open>This theory\<close> holds small example states, the witnesses that apply
  each claim with hypotheses to one of them (evaluated by \<open>simp\<close> and
  \<open>code_simp\<close>; grids of 1 by 2, 2 by 2 and 3 by 4, since the 20 by 30 fixture of
  \<open>run_tests\<close> is beyond kernel evaluation), and the remark on the
  specification's tick order.

  \<^bold>\<open>Not modelled.\<close> The GUIs and printing (\<open>zombie_gui\<close>, \<open>poc_2048_gui\<close>,
  \<open>ttt_gui\<close>, the printing of \<open>run_strategy\<close> and of the test suites, \<open>run_example\<close> of
  \<open>yahtzee.py\<close>, which only prints \<open>strategy\<close> of one hand, \<open>__str__\<close>), Python's
  negative indices in the zombie simulation (coordinates are naturals there;
  the 2048 model indexes as Python does), float rounding (floats are exact
  rationals; see the Cookie Clicker paragraph), and the
  iteration order of Python sets and dicts (fixed to lexicographic or list
  order). The model of the Cookie Clicker loop takes strategies that return
  an item or \<open>None\<close>; \<open>strategy_best\<close>, which may raise, is modelled
  but not run through the loop (the script only names it in a comment).
  The board module \<open>ttt_board\<close> itself and the module-level calls of
  \<open>play_game\<close> and \<open>run_gui\<close> in \<open>tic_tac_toe.py\<close> are not modelled: the
  first is not in the repository, the others start the console and GUI
  games. Termination of \<open>mc_trial\<close> is not claimed, since a random source
  can keep choosing occupied squares.
\<close>

section \<open>Example states\<close>

text \<open>
  A \<open>3 \<times> 4\<close> simulation with one obstacle at \<open>(1, 1)\<close> and one zombie at the
  corner \<open>(0, 0)\<close>, and the same grid with a zombie placed outside it.
\<close>

definition ex_state :: apocalypse where
  "ex_state =
     \<lparr>grid_height = 3, grid_width = 4,
      cells = [[EMPTY, EMPTY, EMPTY, EMPTY], [EMPTY, FULL, EMPTY, EMPTY], [EMPTY, EMPTY, EMPTY, EMPTY]],
      zombie_list = [(0, 0)], human_list = []\<rparr>"

definition ex_field :: field where
  "ex_field = [[0, 1, 2, 3], [1, 12, 3, 4], [2, 3, 4, 5]]"

definition ex_outside :: apocalypse where
  "ex_outside = ex_state\<lparr>zombie_list := [(0, 0), (3, 1)]\<rparr>"

definition ex_pair :: apocalypse where
  "ex_pair =
     \<lparr>grid_height = 2, grid_width = 2, cells = [[EMPTY, EMPTY], [EMPTY, EMPTY]],
      zombie_list = [(0, 0)], human_list = [(0, 1)]\<rparr>"

definition ex_pair_zf :: field where
  "ex_pair_zf = [[0, 1], [1, 2]]"

definition ex_pair_hf :: field where
  "ex_pair_hf = [[2, 1], [1, 0]]"

definition ex_build :: build_info where
  "ex_build = new_build_info (Some [(''Cursor'', 15, 1 / 10), (''Grandma'', 100, 1 / 2)]) BUILD_GROWTH"

definition ex_clicker_end :: clicker_state where
  "ex_clicker_end =
     \<lparr>cookies = 11 / 2, total_cookies = 41 / 2, cps = 11 / 10, current_time = 20,
      history = [(0, None, 0, 0), (15, Some ''Cursor'', 15, 15)]\<rparr>"

text \<open>
  A constructed 2048 game of 2 by 2 cells, and a 1 by 2 game whose first cell
  is taken and whose second is empty.
\<close>

definition ex_game2048 :: twenty_forty_eight where
  "ex_game2048 =
     create_ranges_cache (create_initials_cache
       \<lparr>game_height = 2, game_width = 2, game_grid = [[2, 2], [0, 4]],
        initials = Map.empty, loop_ranges = Map.empty\<rparr>)"

definition ex_game_corner :: twenty_forty_eight where
  "ex_game_corner =
     create_ranges_cache (create_initials_cache
       \<lparr>game_height = 1, game_width = 2, game_grid = [[2, 0]],
        initials = Map.empty, loop_ranges = Map.empty\<rparr>)"

text \<open>
  A tic-tac-toe board for the examples: a square list of lists of squares, a
  move on an empty square only, and the usual winning lines.
\<close>

definition ex_lines :: "ttt_player list list \<Rightarrow> ttt_player list list" where
  "ex_lines b =
     b @ map (\<lambda>c. map (\<lambda>row. row ! c) b) [0..<length b] @
     [map (\<lambda>i. b ! i ! i) [0..<length b], map (\<lambda>i. b ! i ! (length b - 1 - i)) [0..<length b]]"

definition ex_ttt :: "ttt_player list list ttt_board" where
  "ex_ttt =
     \<lparr>get_dim = length,
      square = \<lambda>b r c. b ! r ! c,
      get_empty_squares = \<lambda>b. filter (\<lambda>p. b ! fst p ! snd p = EMPTY_SQ) (List.product [0..<length b] [0..<length b]),
      check_win = \<lambda>b. (if \<exists>l \<in> set (ex_lines b). l \<noteq> [] \<and> (\<forall>x \<in> set l. x = PLAYERX) then Some PLAYERX
                        else if \<exists>l \<in> set (ex_lines b). l \<noteq> [] \<and> (\<forall>x \<in> set l. x = PLAYERO) then Some PLAYERO
                        else if \<forall>row \<in> set b. EMPTY_SQ \<notin> set row then Some DRAW else None),
      board_move = \<lambda>b r c p. (if b ! r ! c = EMPTY_SQ then b[r := (b ! r)[c := p]] else b),
      switch_player = \<lambda>p. (if p = PLAYERX then PLAYERO else PLAYERX)\<rparr>"

definition ex_ttt_won :: "ttt_player list list" where
  "ex_ttt_won = [[PLAYERX, PLAYERX, PLAYERX], [PLAYERO, PLAYERO, EMPTY_SQ], [EMPTY_SQ, EMPTY_SQ, EMPTY_SQ]]"

lemma ex_state_wf: "grid_wf ex_state"
  by (simp add: ex_state_def grid_wf_def rect_def)

lemma ex_outside_wf: "grid_wf ex_outside"
  by (simp add: ex_outside_def ex_state_def grid_wf_def rect_def)

lemma ex_state_field: "compute_distance_field ex_state ZOMBIE = Inr ex_field"
  by code_simp

lemma ex_pair_ok: "sim_ok ex_pair"
  by (simp add: sim_ok_def entities_ok_def grid_wf_def rect_def ex_pair_def humans_def zombies_def
      in_bounds_def)

lemma ex_pair_wf: "grid_wf ex_pair"
  using ex_pair_ok by (simp add: sim_ok_def)

lemma ex_pair_lists:
  "humans ex_pair = [(0, 1)]" "zombies ex_pair = [(0, 0)]"
  "human_list ex_pair = [(0, 1)]" "zombie_list ex_pair = [(0, 0)]"
  by (simp_all add: ex_pair_def humans_def zombies_def)

lemma ex_pair_rects:
  "rect (grid_height ex_pair) (grid_width ex_pair) ex_pair_zf"
  "rect (grid_height ex_pair) (grid_width ex_pair) ex_pair_hf"
  by (simp_all add: ex_pair_def ex_pair_zf_def ex_pair_hf_def rect_def)

lemma ex_pair_inside: "inside ex_pair (0, 0)" "inside ex_pair (0, 1)" "\<not> inside ex_pair (2, 0)"
  by (simp_all add: ex_pair_def in_bounds_def)

lemma ex_pair_move_humans:
  "move_humans ex_pair ex_pair_zf = Inr (ex_pair\<lparr>human_list := [(1, 1)]\<rparr>)"
  by code_simp

lemma ex_pair_move_zombies:
  "move_zombies ex_pair ex_pair_hf = Inr (ex_pair\<lparr>zombie_list := [(1, 0)]\<rparr>)"
  by code_simp

lemma ex_pair_ticks:
  "tick ex_pair = Inr (ex_pair\<lparr>human_list := [(1, 1)], zombie_list := [(1, 0)]\<rparr>)"
  "tick_snapshot ex_pair = Inr (ex_pair\<lparr>human_list := [(1, 1)], zombie_list := [(0, 1)]\<rparr>)"
  by code_simp+

lemma ex_clicker_run: "simulate_clicker ex_build 20 strategy_cursor_broken = Some (Inr ex_clicker_end)"
  by code_simp

lemma ex_build_ratio: "strategy_best_cps_cost_ratio 0 1 1000 ex_build = Inr (Some ''Cursor'')"
  by code_simp

lemma ex_game2048_wf: "game_wf ex_game2048"
  by (simp add: ex_game2048_def game_wf_def create_ranges_cache_def create_initials_cache_def rect_def)

lemma ex_game2048_fields:
  "game_height ex_game2048 = 2" "game_width ex_game2048 = 2" "game_grid ex_game2048 = [[2, 2], [0, 4]]"
  by (simp_all add: ex_game2048_def create_ranges_cache_def create_initials_cache_def)

lemma ex_game2048_left: "shift_board 2 2 LEFT [[2, 2], [0, 4]] = [[4, 0], [4, 0]]"
  by code_simp

section \<open>Witnesses\<close>

theorem compute_distance_field_correct_witness:
  "grid_wf ex_state \<and> sources ex_state ZOMBIE = [(0, 0)] \<and> inside ex_state (0, 0) \<and>
   compute_distance_field ex_state ZOMBIE = Inr ex_field \<and>
   at2 ex_field (2, 3) = shortest ex_state {(0, 0)} (2, 3) \<and> at2 ex_field (2, 3) = 5"
proof -
  have src: "sources ex_state ZOMBIE = [(0, 0)]" by (simp add: sources_def zombies_def ex_state_def)
  have i: "inside ex_state (0, 0)" "inside ex_state (2, 3)" by (simp_all add: ex_state_def in_bounds_def)
  have h: "\<forall>p \<in> set (sources ex_state ZOMBIE). inside ex_state p" using src i by simp
  from compute_distance_field_correct [OF ex_state_wf h] ex_state_field
  have "\<forall>p. inside ex_state p \<longrightarrow> at2 ex_field p = shortest ex_state (set (sources ex_state ZOMBIE)) p"
    by auto
  with i src have "at2 ex_field (2, 3) = shortest ex_state {(0, 0)} (2, 3)" by auto
  with ex_state_wf src i ex_state_field show ?thesis by (simp add: ex_field_def)
qed

theorem distance_field_obstacle_witness:
  "compute_distance_field ex_state ZOMBIE = Inr ex_field \<and> at2 (cells ex_state) (1, 1) = FULL \<and>
   at2 ex_field (1, 1) = 3 * 4"
proof -
  have i: "inside ex_state (1, 1)" by (simp add: ex_state_def in_bounds_def)
  have f: "at2 (cells ex_state) (1, 1) = FULL" by (simp add: ex_state_def)
  have n: "(1, 1) \<notin> set (sources ex_state ZOMBIE)" by (simp add: sources_def zombies_def ex_state_def)
  from distance_field_obstacle [OF ex_state_wf ex_state_field i f n]
  have "at2 ex_field (1, 1) = grid_height ex_state * grid_width ex_state" .
  with ex_state_field f show ?thesis by (simp add: ex_state_def)
qed

theorem distance_field_sources_zero_witness:
  "compute_distance_field ex_state ZOMBIE = Inr ex_field \<and> (0, 0) \<in> set (sources ex_state ZOMBIE) \<and>
   at2 ex_field (0, 0) = 0"
proof -
  have s: "(0, 0) \<in> set (sources ex_state ZOMBIE)" by (simp add: sources_def zombies_def ex_state_def)
  with ex_state_field distance_field_sources_zero [OF ex_state_wf ex_state_field s] show ?thesis
    by simp
qed

theorem distance_field_step_witness:
  "compute_distance_field ex_state ZOMBIE = Inr ex_field \<and> adj4 (1, 2) (1, 3) \<and>
   at2 (cells ex_state) (1, 3) = EMPTY \<and> at2 ex_field (1, 3) \<le> Suc (at2 ex_field (1, 2))"
proof -
  have i: "inside ex_state (1, 2)" "inside ex_state (1, 3)" by (simp_all add: ex_state_def in_bounds_def)
  have a: "adj4 (1, 2) (1, 3)" by (simp add: adj4_def)
  have e: "at2 (cells ex_state) (1, 3) = EMPTY" by (simp add: ex_state_def)
  from distance_field_step [OF ex_state_wf ex_state_field i a e] ex_state_field a e show ?thesis
    by simp
qed

theorem distance_field_sentinel_iff_witness:
  "compute_distance_field ex_state ZOMBIE = Inr ex_field \<and> inside ex_state (2, 3) \<and>
   at2 ex_field (2, 3) \<le> 3 * 4 \<and>
   (at2 ex_field (2, 3) < 3 * 4 \<longleftrightarrow> (\<exists>n. reach ex_state (set (sources ex_state ZOMBIE)) (2, 3) n))"
proof -
  have i: "inside ex_state (2, 3)" by (simp add: ex_state_def in_bounds_def)
  have "grid_height ex_state = 3" "grid_width ex_state = 4" by (simp_all add: ex_state_def)
  with distance_field_sentinel_iff [OF ex_state_wf ex_state_field i] ex_state_field i show ?thesis
    by simp
qed

theorem distance_field_no_sources_witness:
  "sources ex_state HUMAN = [] \<and> compute_distance_field ex_state HUMAN = Inr (initial_field ex_state)"
proof -
  have s: "sources ex_state HUMAN = []" by (simp add: sources_def humans_def ex_state_def)
  with distance_field_no_sources [OF s] show ?thesis by simp
qed

theorem move_humans_safe_witness:
  "grid_wf ex_pair \<and> move_humans ex_pair ex_pair_zf = Inr (ex_pair\<lparr>human_list := [(1, 1)]\<rparr>) \<and>
   at2 ex_pair_zf (0, 1) \<le> at2 ex_pair_zf (1, 1) \<and>
   ((1, 1) = (0, 1) \<or> (1, 1) \<in> set (eight_neighbors ex_pair 0 1) \<and> inside ex_pair (1, 1) \<and> free ex_pair (1, 1))"
proof -
  from move_humans_safe [OF ex_pair_wf ex_pair_move_humans]
  have "list_all2 (\<lambda>h h'. at2 ex_pair_zf h \<le> at2 ex_pair_zf h' \<and>
           (h' = h \<or> (h' \<in> set (eight_neighbors ex_pair (fst h) (snd h)) \<and> inside ex_pair h' \<and> free ex_pair h')))
           [(0, 1)] [(1, 1)]"
    by (simp add: ex_pair_lists humans_def)
  with ex_pair_wf ex_pair_move_humans show ?thesis by simp
qed

theorem move_humans_batch_witness:
  "move_humans ex_pair ex_pair_zf = Inr (ex_pair\<lparr>human_list := [(1, 1)]\<rparr>) \<and>
   flee_target ex_pair ex_pair_zf (0, 1) = (1, 1)"
proof -
  have "\<forall>h \<in> set (humans ex_pair). inside ex_pair h" using ex_pair_inside by (simp add: ex_pair_lists)
  from move_humans_batch [OF ex_pair_wf ex_pair_rects(1) this] ex_pair_move_humans
  have "ex_pair\<lparr>human_list := [(1, 1)]\<rparr> = ex_pair\<lparr>human_list := [flee_target ex_pair ex_pair_zf (0, 1)]\<rparr>"
    by (simp add: ex_pair_lists)
  from arg_cong [where f = human_list, OF this] have "[flee_target ex_pair ex_pair_zf (0, 1)] = [(1, 1)]"
    by simp
  with ex_pair_move_humans show ?thesis by simp
qed

theorem move_zombies_safe_witness:
  "grid_wf ex_pair \<and> move_zombies ex_pair ex_pair_hf = Inr (ex_pair\<lparr>zombie_list := [(1, 0)]\<rparr>) \<and>
   at2 ex_pair_hf (1, 0) \<le> at2 ex_pair_hf (0, 0) \<and>
   ((1, 0) = (0, 0) \<or> (1, 0) \<in> set (four_neighbors ex_pair 0 0) \<and> inside ex_pair (1, 0) \<and> free ex_pair (1, 0))"
proof -
  from move_zombies_safe [OF ex_pair_wf ex_pair_move_zombies]
  have "list_all2 (\<lambda>z z'. at2 ex_pair_hf z' \<le> at2 ex_pair_hf z \<and>
           (z' = z \<or> (z' \<in> set (four_neighbors ex_pair (fst z) (snd z)) \<and> inside ex_pair z' \<and> free ex_pair z')))
           [(0, 0)] [(1, 0)]"
    by (simp add: ex_pair_lists zombies_def)
  with ex_pair_wf ex_pair_move_zombies show ?thesis by simp
qed

theorem move_zombies_batch_witness:
  "move_zombies ex_pair ex_pair_hf = Inr (ex_pair\<lparr>zombie_list := [(1, 0)]\<rparr>) \<and>
   chase_target ex_pair ex_pair_hf (0, 0) = (1, 0)"
proof -
  have "\<forall>z \<in> set (zombies ex_pair). inside ex_pair z" using ex_pair_inside by (simp add: ex_pair_lists)
  from move_zombies_batch [OF ex_pair_wf ex_pair_rects(2) this] ex_pair_move_zombies
  have "ex_pair\<lparr>zombie_list := [(1, 0)]\<rparr> = ex_pair\<lparr>zombie_list := [chase_target ex_pair ex_pair_hf (0, 0)]\<rparr>"
    by (simp add: ex_pair_lists)
  from arg_cong [where f = zombie_list, OF this] have "[chase_target ex_pair ex_pair_hf (0, 0)] = [(1, 0)]"
    by simp
  with ex_pair_move_zombies show ?thesis by simp
qed

theorem run_sim_ok_witness:
  "sim_ok ex_pair \<and>
   (\<exists>s'. run 3 ex_pair = Inr s' \<and> sim_ok s' \<and> cells s' = cells ex_pair \<and>
      grid_height s' = 2 \<and> grid_width s' = 2 \<and> num_humans s' = 1 \<and> num_zombies s' = 1)"
proof -
  have "num_humans ex_pair = 1" "num_zombies ex_pair = 1" "grid_height ex_pair = 2" "grid_width ex_pair = 2"
    by (simp_all add: num_humans_def num_zombies_def ex_pair_def)
  with run_sim_ok [OF ex_pair_ok, of 3] ex_pair_ok show ?thesis by auto
qed

theorem expected_value_mean_witness:
  "1 \<le> (6 :: int) \<and> [5 :: int] \<noteq> [] \<and>
   expected_value [5] 6 1 =
     Inr (of_int (\<Sum>s \<in> gen_all_sequences [1..6] 1. upper_score ([5] @ s)) / of_nat (nat 6 ^ 1))"
  using expected_value_mean [of 6 "[5]" 1] by simp

theorem strategy_best_witness:
  "[1, 1, 6 :: int] \<noteq> [] \<and> 1 \<le> (6 :: int) \<and>
   (\<exists>m h. strategy [1, 1, 6] 6 = Some (Inr (m, Some h)) \<and> subseq h [1, 1, 6] \<and>
      expected_value h 6 (length [1, 1, 6 :: int] - length h) = Inr m \<and>
      (\<forall>h'. subseq h' [1, 1, 6] \<longrightarrow> (\<exists>v. expected_value h' 6 (length [1, 1, 6 :: int] - length h') = Inr v \<and> v \<le> m)))"
  using strategy_best [of "[1, 1, 6]" 6] by (simp only: list.simps not_False_eq_True simp_thms)

theorem simulate_clicker_history_witness:
  "simulate_clicker ex_build 20 strategy_cursor_broken = Some (Inr ex_clicker_end) \<and>
   hd (get_history ex_clicker_end) = (0, None, 0, 0) \<and>
   sorted (map (\<lambda>(t, i, c, tot). t) (get_history ex_clicker_end)) \<and>
   0 \<le> get_cookies ex_clicker_end \<and> 1 \<le> get_cps ex_clicker_end"
proof -
  have p: "\<forall>(n, c, p) \<in> set (info ex_build). 0 \<le> p" by (simp add: ex_build_def new_build_info_def)
  from Cookie_Clicker.simulate_clicker_history [OF ex_clicker_run p] ex_clicker_run show ?thesis by simp
qed

theorem simulate_clicker_time_witness:
  "simulate_clicker ex_build 20 strategy_cursor_broken = Some (Inr ex_clicker_end) \<and> get_time ex_clicker_end = 20"
  using simulate_clicker_time [OF ex_clicker_run] ex_clicker_run by simp

theorem time_until_least_witness:
  "0 < cps new_clicker_state \<and>
   (\<exists>t. time_until new_clicker_state 15 = Inr t \<and> t = of_int (ceiling t) \<and> 0 \<le> t \<and>
      15 \<le> cookies new_clicker_state + t * cps new_clicker_state \<and>
      (\<forall>k :: int. 0 \<le> k \<and> 15 \<le> cookies new_clicker_state + of_int k * cps new_clicker_state \<longrightarrow> t \<le> of_int k))"
proof -
  have p: "0 < cps new_clicker_state" by (simp add: new_clicker_state_def)
  with time_until_least [OF p, of 15] show ?thesis by blast
qed

theorem strategy_best_ratio_witness:
  "strategy_best_cps_cost_ratio 0 1 1000 ex_build = Inr (Some ''Cursor'') \<and>
   (\<exists>c q. get_cost ex_build ''Cursor'' = Inr c \<and> c \<le> 0 + 1 * 1000 \<and> cps_ratio ex_build ''Cursor'' = Inr q \<and>
      (\<forall>it' \<in> set (build_items ex_build). \<forall>c' q'.
         get_cost ex_build it' = Inr c' \<and> c' \<le> 0 + 1 * 1000 \<and> cps_ratio ex_build it' = Inr q' \<longrightarrow> q' \<le> q))"
proof -
  have pos: "\<forall>(n, c, p) \<in> set (info ex_build). 0 < c" by (simp add: ex_build_def new_build_info_def)
  from strategy_best_ratio [OF pos, of 0 1 1000] ex_build_ratio show ?thesis by auto
qed

theorem simulate_clicker_key_error_witness:
  "0 \<le> (10 :: rat) \<and> ''Farm'' \<notin> set (build_items ex_build) \<and>
   simulate_clicker ex_build 10 (\<lambda>cookies_now cps_now time_left bi. Some ''Farm'') = Some (Inl KeyError)"
proof -
  have n: "''Farm'' \<notin> set (build_items ex_build)" by (simp add: ex_build_def new_build_info_def build_items_def)
  from simulate_clicker_key_error [OF _ n, of 10] n show ?thesis by simp
qed

theorem move_lines_spec_witness:
  "game_wf ex_game2048 \<and> move_lines ex_game2048 LEFT = Inr [[4, 0], [4, 0]]"
  using Game2048_Move.move_lines_spec [OF ex_game2048_wf, of LEFT] ex_game2048_wf
  by (simp add: ex_game2048_fields ex_game2048_left)

theorem move_lines_sum_witness:
  "game_wf ex_game2048 \<and>
   (\<exists>b'. move_lines ex_game2048 UP = Inr b' \<and> sum_list (map sum_list b') = 8)"
  using Game2048_Move.move_lines_sum [OF ex_game2048_wf, of UP] ex_game2048_wf
  by (simp add: ex_game2048_fields)

theorem move_spec_witness:
  "game_wf ex_game2048 \<and>
   (\<exists>b' rnd'. move ex_game2048 LEFT (\<lambda>i. i) = Inr (ex_game2048\<lparr>game_grid := b'\<rparr>, rnd') \<and>
      rect 2 2 b' \<and> tile_added 2 2 [[4, 0], [4, 0]] b')"
  using Game2048_Move.move_spec [OF ex_game2048_wf, of LEFT "\<lambda>i. i"] ex_game2048_wf
  by (simp add: ex_game2048_fields ex_game2048_left)

theorem reachable_game_inv_witness:
  "reachable_game (fst (projr (init_game 2 2 (\<lambda>i. i)))) \<and>
   game_wf (fst (projr (init_game 2 2 (\<lambda>i. i)))) \<and>
   game_grid (fst (projr (init_game 2 2 (\<lambda>i. i)))) = [[0, 2], [2, 0]] \<and> tiles_ok 2 2 [[0, 2], [2, 0]]"
proof -
  let ?r = "init_game 2 2 (\<lambda>i. i)"
  have "\<exists>g rnd'. ?r = Inr (g, rnd')" by (rule init_game_Inr)
  then have "?r = Inr (fst (projr ?r), snd (projr ?r))" by auto
  then have reach: "reachable_game (fst (projr ?r))" by (rule reachable_game.init)
  have g: "game_grid (fst (projr ?r)) = [[0, 2], [2, 0]]" "game_height (fst (projr ?r)) = 2"
    "game_width (fst (projr ?r)) = 2" by code_simp+
  from Game2048_Move.reachable_game_inv [OF reach] reach g show ?thesis by simp
qed

theorem new_tile_gives_up_witness:
  "rect 1 2 (game_grid ex_game_corner) \<and> game_grid ex_game_corner ! 0 ! 1 = 0 \<and>
   new_tile ex_game_corner (\<lambda>i. 0) = Inr (Some ''Game is over!!!'', ex_game_corner, \<lambda>i. 0)"
proof -
  have f: "game_height ex_game_corner = 1" "game_width ex_game_corner = 2"
    "game_grid ex_game_corner = [[2, 0]]"
    by (simp_all add: ex_game_corner_def create_ranges_cache_def create_initials_cache_def)
  have r: "rect (game_height ex_game_corner) (game_width ex_game_corner) (game_grid ex_game_corner)"
    by (simp add: f rect_def)
  from Game2048_Move.new_tile_gives_up [OF r] r f show ?thesis by simp
qed

theorem set_tile_get_tile_witness:
  "rect 2 2 (game_grid ex_game2048) \<and>
   (\<exists>g'. set_tile ex_game2048 (-1) (-2) 8 = Inr g' \<and> get_tile g' 1 0 = Inr 8 \<and>
      get_tile g' (-2) 1 = Inr 2 \<and> game_height g' = 2)"
proof -
  have r: "rect (game_height ex_game2048) (game_width ex_game2048) (game_grid ex_game2048)"
    by (simp add: ex_game2048_fields rect_def)
  from Game2048_Move.set_tile_get_tile [OF r, of "-1" "-2" 8] obtain g' where
    g': "set_tile ex_game2048 (-1) (-2) 8 = Inr g'" "g'\<lparr>game_grid := game_grid ex_game2048\<rparr> = ex_game2048"
    "\<forall>r' c'. get_tile g' r' c' =
       (if py_index 2 r' = py_index 2 (-1) \<and> py_index 2 c' = py_index 2 (-2) then Inr 8
        else get_tile ex_game2048 r' c')"
    by (auto simp: ex_game2048_fields)
  have h: "game_height g' = 2"
    using arg_cong [OF g'(2), of game_height] by (simp add: ex_game2048_fields)
  have "get_tile g' 1 0 = Inr 8" using g'(3) [rule_format, of 1 0] by (simp add: py_index_def)
  moreover have "get_tile g' (-2) 1 = Inr 2"
    using g'(3) [rule_format, of "-2" 1] by (simp add: py_index_def get_tile_def py_get2_def ex_game2048_fields)
  ultimately show ?thesis using g'(1) h r by (auto simp: ex_game2048_fields)
qed

theorem move_lines_partition_witness:
  "game_wf ex_game_corner \<and>
   (\<exists>offset init_coords loop_range.
      OFFSETS RIGHT = Some offset \<and> initials ex_game_corner RIGHT = Some init_coords \<and>
      loop_ranges ex_game_corner RIGHT = Some loop_range \<and>
      distinct (concat (map (\<lambda>ic. gen_offset_list ic offset loop_range) init_coords)) \<and>
      set (concat (map (\<lambda>ic. gen_offset_list ic offset loop_range) init_coords)) =
        {(int r, int c) | r c. r < 1 \<and> c < 2})"
proof -
  have f: "game_height ex_game_corner = 1" "game_width ex_game_corner = 2"
    by (simp_all add: ex_game_corner_def create_ranges_cache_def create_initials_cache_def)
  have wf: "game_wf ex_game_corner"
    by (simp add: ex_game_corner_def game_wf_def create_ranges_cache_def create_initials_cache_def rect_def)
  from Game2048_Move.move_lines_partition [OF wf, of RIGHT] wf show ?thesis by (simp add: f)
qed

theorem get_best_move_first_best_witness:
  "rect 2 2 [[0, 5], [3, 0 :: rat]] \<and>
   get_best_move ex_ttt [[PLAYERX, EMPTY_SQ], [EMPTY_SQ, PLAYERO]] [[0, 5], [3, 0]] = Inr (0, 1)"
proof -
  have r: "rect 2 2 [[0, 5], [3, 0 :: rat]]" by (simp add: rect_def)
  have e: "get_empty_squares ex_ttt [[PLAYERX, EMPTY_SQ], [EMPTY_SQ, PLAYERO]] = [(0, 1), (1, 0)]"
    by code_simp
  have b: "\<forall>q \<in> set (get_empty_squares ex_ttt [[PLAYERX, EMPTY_SQ], [EMPTY_SQ, PLAYERO]]). in_bounds 2 2 q"
    by (simp add: e in_bounds_def)
  have f: "first_best [[0, 5], [3, 0 :: rat]] [(0, 1), (1, 0)] = (0, 1)"
    by (simp add: first_best_def)
  from Tic_Tac_Toe.get_best_move_first_best [OF r b] r show ?thesis unfolding e f by simp
qed

theorem mc_update_scores_spec_witness:
  "rect 3 3 (replicate 3 (replicate 3 (0 :: rat))) \<and>
   (\<exists>scores'. mc_update_scores ex_ttt (replicate 3 (replicate 3 0)) ex_ttt_won PLAYERX = Inr scores' \<and>
      scores' ! 0 ! 0 = 1 \<and> scores' ! 1 ! 0 = -1 \<and> scores' ! 2 ! 2 = 0)"
proof -
  have d: "get_dim ex_ttt ex_ttt_won = 3" by (simp add: ex_ttt_def ex_ttt_won_def)
  have r: "rect (get_dim ex_ttt ex_ttt_won) (get_dim ex_ttt ex_ttt_won) (replicate 3 (replicate 3 (0 :: rat)))"
    by (simp add: d rect_def)
  have w: "check_win ex_ttt ex_ttt_won = Some PLAYERX"
    by code_simp
  have sq: "square ex_ttt ex_ttt_won 0 0 = PLAYERX" "square ex_ttt ex_ttt_won 1 0 = PLAYERO"
    "square ex_ttt ex_ttt_won (Suc 0) 0 = PLAYERO" "square ex_ttt ex_ttt_won 2 2 = EMPTY_SQ"
    "square ex_ttt ex_ttt_won (Suc (Suc 0)) (Suc (Suc 0)) = EMPTY_SQ"
    by (simp_all add: ex_ttt_def ex_ttt_won_def)
  from Tic_Tac_Toe.mc_update_scores_spec [OF r, of PLAYERX] obtain scores' where
    s: "mc_update_scores ex_ttt (replicate 3 (replicate 3 0)) ex_ttt_won PLAYERX = Inr scores'"
    "\<forall>r < 3. \<forall>c < 3. scores' ! r ! c = replicate 3 (replicate 3 0) ! r ! c +
       (if check_win ex_ttt ex_ttt_won = Some DRAW \<or> square ex_ttt ex_ttt_won r c = EMPTY_SQ then 0
        else if Some (square ex_ttt ex_ttt_won r c) = check_win ex_ttt ex_ttt_won
        then (if check_win ex_ttt ex_ttt_won = Some PLAYERX then SCORE_CURRENT else SCORE_OTHER)
        else - (if check_win ex_ttt ex_ttt_won = Some PLAYERX then SCORE_OTHER else SCORE_CURRENT))"
    by (auto simp only: d)
  have "scores' ! 0 ! 0 = 1" "scores' ! 1 ! 0 = -1" "scores' ! 2 ! 2 = 0"
    using s(2) by (simp_all add: w sq SCORE_CURRENT_def SCORE_OTHER_def)
  with s(1) r d show ?thesis by auto
qed

theorem mc_trials_shape_witness:
  "0 < get_dim ex_ttt [[PLAYERX, EMPTY_SQ], [EMPTY_SQ, PLAYERO]] \<and>
   (\<exists>scores' rnd'. mc_trials ex_ttt [[PLAYERX, EMPTY_SQ], [EMPTY_SQ, PLAYERO]] PLAYERX 1
        (replicate 2 (replicate 2 0)) (\<lambda>i. i) = Some (Inr (scores', rnd')) \<and> rect 2 2 scores')"
proof -
  let ?b = "[[PLAYERX, EMPTY_SQ], [EMPTY_SQ, PLAYERO]]"
  have dim: "\<forall>b r c q. get_dim ex_ttt (board_move ex_ttt b r c q) = get_dim ex_ttt b"
    by (simp add: ex_ttt_def)
  have d: "get_dim ex_ttt ?b = 2" by (simp add: ex_ttt_def)
  have v: "map_option (map_sum id fst) (mc_trials ex_ttt ?b PLAYERX 1 (replicate 2 (replicate 2 0)) (\<lambda>i. i)) =
           Some (Inr [[1, 1], [0, -1]])"
    by code_simp
  then obtain res where run: "mc_trials ex_ttt ?b PLAYERX 1 (replicate 2 (replicate 2 0)) (\<lambda>i. i) = Some res"
    by blast
  have z: "rect (get_dim ex_ttt ?b) (get_dim ex_ttt ?b) (replicate 2 (replicate 2 (0 :: rat)))"
    by (simp add: d rect_def)
  from Tic_Tac_Toe.mc_trials_shape [OF dim _ z run] d run show ?thesis by auto
qed

theorem mc_move_best_witness:
  "get_empty_squares ex_ttt [[PLAYERX, EMPTY_SQ], [EMPTY_SQ, PLAYERO]] = [(0, 1), (1, 0)] \<and>
   (\<exists>scores' rnd'. mc_move ex_ttt [[PLAYERX, EMPTY_SQ], [EMPTY_SQ, PLAYERO]] PLAYERX 1 (\<lambda>i. i) =
        Some (Inr (first_best scores' [(0, 1), (1, 0)], rnd')) \<and> rect 2 2 scores' \<and>
        first_best scores' [(0, 1), (1, 0)] \<in> {(0, 1), (1, 0)})"
proof -
  let ?b = "[[PLAYERX, EMPTY_SQ], [EMPTY_SQ, PLAYERO]]"
  have dim: "\<forall>b r c q. get_dim ex_ttt (board_move ex_ttt b r c q) = get_dim ex_ttt b"
    by (simp add: ex_ttt_def)
  have d: "get_dim ex_ttt ?b = 2" by (simp add: ex_ttt_def)
  have e: "get_empty_squares ex_ttt ?b = [(0, 1), (1, 0)]" by code_simp
  have inb: "\<forall>q \<in> set (get_empty_squares ex_ttt ?b). in_bounds (get_dim ex_ttt ?b) (get_dim ex_ttt ?b) q"
    by (simp add: e d in_bounds_def)
  have v: "map_option (map_sum id fst) (mc_move ex_ttt ?b PLAYERX 1 (\<lambda>i. i)) = Some (Inr (0, 1))"
    by code_simp
  then obtain res where run: "mc_move ex_ttt ?b PLAYERX 1 (\<lambda>i. i) = Some res" by blast
  from Tic_Tac_Toe.mc_move_best [OF dim _ _ inb run] d e run show ?thesis by auto
qed

section \<open>A remark on the specification\<close>

text \<open>
  The order of a tick matters (a remark on the specification, recorded as a
  finding rather than a property of the code): on a state satisfying the invariant, the
  driver order of the specification (zombie field, humans move, human field of
  the moved humans, zombies move) and the reading that both fields come from
  the pre-tick snapshot give different zombie positions. The human field is not
  independent of the humans' move.
\<close>

theorem tick_order_matters: "\<exists>s. sim_ok s \<and> tick s \<noteq> tick_snapshot s"
proof
  show "sim_ok ex_pair \<and> tick ex_pair \<noteq> tick_snapshot ex_pair"
    using ex_pair_ok unfolding ex_pair_ticks by (simp add: ex_pair_def)
qed

end
